theory Spec2Isabelle
  imports Main "HOL-Library.Word" "HOL-Library.Signed_Division"
begin

section \<open>MD_MAXPanel: coordinate mapping and rasterisation\<close>

text \<open>
  A shallow embedding of \<^verbatim>\<open>src/src/MD_MAXPanel.cpp\<close> (the revision with the
  \<^verbatim>\<open>_rotatedDisplay\<close> member). \<^verbatim>\<open>uint8_t\<close> is \<open>8 word\<close>, \<^verbatim>\<open>uint16_t\<close> is
  \<open>16 word\<close>, \<^verbatim>\<open>int16_t\<close> is a \<open>16 word\<close> read with \<open>sint\<close>. Arithmetic that C++
  performs after integer promotion is written on words where the result is narrowed to
  16 bits again (addition, subtraction and multiplication commute with the narrowing),
  and on \<open>int\<close> where a comparison or a division sees the promoted value.
\<close>

subsection \<open>The external driver\<close>

type_synonym coord = "16 word"

text \<open>
  Modelled from the spec: the device driver \<^verbatim>\<open>MD_MAX72XX\<close> is an external collaborator
  and not part of this repository. The spec says that it "maintains the on/off state of
  every individual LED, and exposes primitive single-pixel get/set,
  buffered-update-suspend/resume", and that the pixel-set operation returns "true on
  success". The model keeps the set of lit (row, column) addresses and the flag of the
  buffered-update control; the serial refresh of the hardware is not modelled.
\<close>

record driver =
  pixels :: "(coord \<times> coord) set"
  autoUpdate :: bool

definition D_getPoint :: "driver \<Rightarrow> coord \<Rightarrow> coord \<Rightarrow> bool" where
  "D_getPoint d r c = ((r, c) \<in> pixels d)"

definition D_setPoint :: "driver \<Rightarrow> coord \<Rightarrow> coord \<Rightarrow> bool \<Rightarrow> bool \<times> driver" where
  "D_setPoint d r c state =
     (True, d\<lparr>pixels := (if state then insert (r, c) (pixels d) else pixels d - {(r, c)})\<rparr>)"

definition D_control_UPDATE :: "driver \<Rightarrow> bool \<Rightarrow> driver" where
  "D_control_UPDATE d v = d\<lparr>autoUpdate := v\<rparr>"

text \<open>
  Modelled from the spec: \<^verbatim>\<open>ROW_SIZE\<close> and \<^verbatim>\<open>COL_SIZE\<close> are macros of the driver's header;
  the spec fixes both ("each device = 8\<times>8 pixels").
\<close>

definition ROW_SIZE :: coord where
  "ROW_SIZE = 8"

definition COL_SIZE :: coord where
  "COL_SIZE = 8"

subsection \<open>The panel object\<close>

text \<open>
  The members of \<^verbatim>\<open>class MD_MAXPanel\<close> that the drawing code reads or writes. The driver
  object behind the pointer \<^verbatim>\<open>_D\<close> is held by value. \<open>setPointLog\<close> is a history variable
  and not a member of the class: \<open>setPoint\<close> appends the coordinate it was called with,
  so that the pixel writes issued by a drawing operation can be counted and compared.
\<close>

record panel =
  xDevices :: "8 word"
  yDevices :: "8 word"
  rotatedDisplay :: bool
  updateEnabled :: bool
  D :: driver
  setPointLog :: "(coord \<times> coord) list"

text \<open>The invariant of the spec's data model: at least one device in each direction.\<close>

definition panel_ok :: "panel \<Rightarrow> bool" where
  "panel_ok p = (1 \<le> xDevices p \<and> 1 \<le> yDevices p)"

definition getXMax :: "panel \<Rightarrow> coord" where
  "getXMax p =
     (if rotatedDisplay p then (ucast (yDevices p) * ROW_SIZE) - 1
      else (ucast (xDevices p) * COL_SIZE) - 1)"

definition getYMax :: "panel \<Rightarrow> coord" where
  "getYMax p =
     (if rotatedDisplay p then (ucast (xDevices p) * COL_SIZE) - 1
      else (ucast (yDevices p) * ROW_SIZE) - 1)"

text \<open>
  \<^verbatim>\<open>update(bool state)\<close> of the header: stores the flag and forwards it to the driver.
\<close>

definition update :: "panel \<Rightarrow> bool \<Rightarrow> panel" where
  "update p state = p\<lparr>updateEnabled := state, D := D_control_UPDATE (D p) state\<rparr>"

subsection \<open>Address translation\<close>

text \<open>
  \<^verbatim>\<open>x % (_xDevices * COL_SIZE)\<close> divides by zero when \<^verbatim>\<open>_xDevices\<close> is 0, which C++
  leaves undefined while HOL's \<open>mod\<close> returns its first argument; every statement below
  that translates an address assumes \<open>panel_ok\<close>.
\<close>

definition Y2Row :: "panel \<Rightarrow> coord \<Rightarrow> coord \<Rightarrow> coord" where
  "Y2Row p x y =
     (if rotatedDisplay p then
        (let x = getXMax p - x in ROW_SIZE - (x mod ROW_SIZE) - 1)
      else ROW_SIZE - (y mod ROW_SIZE) - 1)"

definition X2Col :: "panel \<Rightarrow> coord \<Rightarrow> coord \<Rightarrow> coord" where
  "X2Col p x y =
     (if rotatedDisplay p then
        (let x = getXMax p - x in
           (x div ROW_SIZE) * (ucast (xDevices p) * COL_SIZE) + (ucast (xDevices p) * COL_SIZE) - 1
             - (y mod (ucast (xDevices p) * COL_SIZE)))
      else
        (y div ROW_SIZE) * (ucast (xDevices p) * COL_SIZE) + (ucast (xDevices p) * COL_SIZE) - 1
          - (x mod (ucast (xDevices p) * COL_SIZE)))"

subsection \<open>Point access\<close>

definition getPoint :: "panel \<Rightarrow> coord \<Rightarrow> coord \<Rightarrow> bool" where
  "getPoint p x y =
     (if x > getXMax p \<or> y > getYMax p then False
      else D_getPoint (D p) (Y2Row p x y) (X2Col p x y))"

definition setPoint :: "panel \<Rightarrow> coord \<Rightarrow> coord \<Rightarrow> bool \<Rightarrow> bool \<times> panel" where
  "setPoint p x y state =
     (if x > getXMax p \<or> y > getYMax p
      then (False, p\<lparr>setPointLog := setPointLog p @ [(x, y)]\<rparr>)
      else (let (r, d) = D_setPoint (D p) (Y2Row p x y) (X2Col p x y) state
            in (r, p\<lparr>D := d, setPointLog := setPointLog p @ [(x, y)]\<rparr>)))"

text \<open>A panel of the given size with every LED off, as after \<^verbatim>\<open>begin()\<close> and
  \<^verbatim>\<open>clear()\<close>.\<close>

definition blank_panel :: "8 word \<Rightarrow> 8 word \<Rightarrow> bool \<Rightarrow> panel" where
  "blank_panel xd yd rot =
     \<lparr>xDevices = xd, yDevices = yd, rotatedDisplay = rot, updateEnabled = True,
      D = \<lparr>pixels = {}, autoUpdate = True\<rparr>, setPointLog = []\<rparr>"

subsection \<open>Horizontal and vertical lines\<close>

text \<open>
  The \<^verbatim>\<open>for\<close> loops may run forever (the counter wraps before it exceeds the bound), so
  they are partial functions into \<open>option\<close>: \<open>None\<close> is a loop that never exits.
  \<^verbatim>\<open>b &= setPoint(...)\<close> always calls \<^verbatim>\<open>setPoint\<close>.
\<close>

partial_function (option) drawHLine_loop ::
  "coord \<Rightarrow> coord \<Rightarrow> coord \<Rightarrow> bool \<Rightarrow> bool \<Rightarrow> panel \<Rightarrow> (bool \<times> panel) option" where
  "drawHLine_loop i x2 y state b p =
     (if i \<le> x2 then
        (case setPoint p i y state of
           (r, p') \<Rightarrow> drawHLine_loop (i + 1) x2 y state (b \<and> r) p')
      else Some (b, p))"

declare drawHLine_loop.simps [code]

definition drawHLine :: "panel \<Rightarrow> coord \<Rightarrow> coord \<Rightarrow> coord \<Rightarrow> bool \<Rightarrow> (bool \<times> panel) option" where
  "drawHLine p y x1 x2 state =
     (let p0 = p\<lparr>D := D_control_UPDATE (D p) False\<rparr>;
          (x1, x2) = (if x1 > x2 then (x2, x1) else (x1, x2))
      in case drawHLine_loop x1 x2 y state True p0 of
           None \<Rightarrow> None
         | Some (b, p1) \<Rightarrow> Some (b, update p1 (updateEnabled p1)))"

text \<open>
  In \<^verbatim>\<open>drawVLine\<close> the swap temporary \<^verbatim>\<open>t\<close> and the loop counter \<^verbatim>\<open>i\<close> are
  \<^verbatim>\<open>uint8_t\<close>: \<^verbatim>\<open>t = y1\<close> and \<^verbatim>\<open>i = y1\<close> keep the low byte, \<^verbatim>\<open>i <= y2\<close>
  compares the widened counter with the 16-bit bound, and \<^verbatim>\<open>i++\<close> wraps at 256. The
  column \<^verbatim>\<open>x\<close> is called \<open>x0\<close> in the loop.
\<close>

partial_function (option) drawVLine_loop ::
  "8 word \<Rightarrow> coord \<Rightarrow> coord \<Rightarrow> bool \<Rightarrow> bool \<Rightarrow> panel \<Rightarrow> (bool \<times> panel) option" where
  "drawVLine_loop i y2 x0 state b p =
     (if ucast i \<le> y2 then
        (case setPoint p x0 (ucast i) state of
           (r, p') \<Rightarrow> drawVLine_loop (i + 1) y2 x0 state (b \<and> r) p')
      else Some (b, p))"

declare drawVLine_loop.simps [code]

definition drawVLine :: "panel \<Rightarrow> coord \<Rightarrow> coord \<Rightarrow> coord \<Rightarrow> bool \<Rightarrow> (bool \<times> panel) option" where
  "drawVLine p x y1 y2 state =
     (let p0 = p\<lparr>D := D_control_UPDATE (D p) False\<rparr>;
          (y1, y2) = (if y1 > y2 then (let t = (ucast y1 :: 8 word) in (y2, ucast t)) else (y1, y2))
      in case drawVLine_loop (ucast y1) y2 x state True p0 of
           None \<Rightarrow> None
         | Some (b, p1) \<Rightarrow> Some (b, update p1 (updateEnabled p1)))"

subsection \<open>Arbitrary lines\<close>

text \<open>
  \<^verbatim>\<open>dx\<close>, \<^verbatim>\<open>dy\<close>, \<^verbatim>\<open>sy\<close>, \<^verbatim>\<open>err\<close> and \<^verbatim>\<open>e2\<close> are \<^verbatim>\<open>int16_t\<close>; \<^verbatim>\<open>sx\<close> is the
  constant 1. Storing into them narrows to 16 bits. The comparisons \<^verbatim>\<open>e2 > -dx\<close>,
  \<^verbatim>\<open>e2 < dy\<close>, \<^verbatim>\<open>dx > dy\<close> and the division by 2 (which truncates towards zero)
  are evaluated on the promoted values, taken here without overflow as where \<^verbatim>\<open>int\<close> is
  wider than 16 bits.
\<close>

partial_function (option) drawLine_loop ::
  "coord \<Rightarrow> coord \<Rightarrow> coord \<Rightarrow> coord \<Rightarrow> 16 word \<Rightarrow> 16 word \<Rightarrow> 16 word \<Rightarrow> 16 word
     \<Rightarrow> bool \<Rightarrow> bool \<Rightarrow> panel \<Rightarrow> (bool \<times> panel) option" where
  "drawLine_loop x1 y1 x2 y2 dx dy sy err state b p =
     (case setPoint p x1 y1 state of
        (r, p') \<Rightarrow>
          if x1 = x2 \<and> y1 = y2 then Some (b \<and> r, p')
          else
            (let e2 = err;
                 (err, x1) = (if sint e2 > - sint dx then (err - dy, x1 + 1) else (err, x1));
                 (err, y1) = (if sint e2 < sint dy then (err + dx, y1 + sy) else (err, y1))
             in drawLine_loop x1 y1 x2 y2 dx dy sy err state (b \<and> r) p'))"

declare drawLine_loop.simps [code]

definition drawLine ::
  "panel \<Rightarrow> coord \<Rightarrow> coord \<Rightarrow> coord \<Rightarrow> coord \<Rightarrow> bool \<Rightarrow> (bool \<times> panel) option" where
  "drawLine p x1 y1 x2 y2 state =
     (let p0 = p\<lparr>D := D_control_UPDATE (D p) False\<rparr>;
          (x1, y1, x2, y2) = (if x1 > x2 then (x2, y2, x1, y1) else (x1, y1, x2, y2));
          dx = x2 - x1;
          dy = y2 - y1;
          dy = (if sint dy < 0 then - dy else dy);
          sy = (if y1 < y2 then 1 else - 1);
          err = word_of_int ((if sint dx > sint dy then sint dx else - sint dy) sdiv 2)
      in case drawLine_loop x1 y1 x2 y2 dx dy sy err state True p0 of
           None \<Rightarrow> None
         | Some (b, p1) \<Rightarrow> Some (b, update p1 (updateEnabled p1)))"

subsection \<open>Circles\<close>

definition drawCirclePoints ::
  "panel \<Rightarrow> coord \<Rightarrow> coord \<Rightarrow> coord \<Rightarrow> coord \<Rightarrow> bool \<Rightarrow> bool \<times> panel" where
  "drawCirclePoints p xc yc x y state =
     (let b = True;
          (r, p) = setPoint p (xc + x) (yc + y) state; b = (b \<and> r);
          (r, p) = setPoint p (xc - x) (yc + y) state; b = (b \<and> r);
          (r, p) = setPoint p (xc + x) (yc - y) state; b = (b \<and> r);
          (r, p) = setPoint p (xc - x) (yc - y) state; b = (b \<and> r);
          (r, p) = setPoint p (xc + y) (yc + x) state; b = (b \<and> r);
          (r, p) = setPoint p (xc - y) (yc + x) state; b = (b \<and> r);
          (r, p) = setPoint p (xc + y) (yc - x) state; b = (b \<and> r);
          (r, p) = setPoint p (xc - y) (yc - x) state; b = (b \<and> r)
      in (b, p))"

text \<open>
  \<^verbatim>\<open>x\<close>, \<^verbatim>\<open>y\<close> and \<^verbatim>\<open>pk\<close> are \<^verbatim>\<open>int\<close>, whose width belongs to the target and not to
  this source: 16 bits on AVR boards, 32 bits on ARM and ESP boards. The width \<open>w\<close> is
  therefore a parameter of the model. A value of type \<^verbatim>\<open>int\<close> is modelled by the integer it
  denotes, and \<open>to_int w\<close> brings a result back into the range of a \<open>w\<close>-bit \<^verbatim>\<open>int\<close> in two's
  complement, for a conversion to \<^verbatim>\<open>int\<close> as for the result of an operation on \<^verbatim>\<open>int\<close>.
  C++ leaves the result of a signed operation that overflows undefined; the wrap-around is
  what the compilers of these boards produce.
\<close>

definition to_int :: "nat \<Rightarrow> int \<Rightarrow> int" where
  "to_int w k = signed_take_bit (w - 1) k"

text \<open>
  The loop of \<^verbatim>\<open>drawCircle\<close>. Every operation on \<^verbatim>\<open>int\<close> is followed by \<open>to_int w\<close>; passing
  \<^verbatim>\<open>x\<close> and \<^verbatim>\<open>y\<close> to \<^verbatim>\<open>drawCirclePoints\<close> narrows them to \<^verbatim>\<open>uint16_t\<close>. With wrap-around the
  loop need not end, so that not returning is the value \<open>None\<close>.
\<close>

partial_function (option) drawCircle_loop ::
  "nat \<Rightarrow> coord \<Rightarrow> coord \<Rightarrow> bool \<Rightarrow> int \<Rightarrow> int \<Rightarrow> int \<Rightarrow> bool \<Rightarrow> panel \<Rightarrow> (bool \<times> panel) option" where
  "drawCircle_loop w xc yc state x y pk b p =
     (if x < y then
        (if pk \<le> 0 then
           (let pk = to_int w (to_int w (pk + to_int w (4 * x)) + 6);
                x = to_int w (x + 1)
            in case drawCirclePoints p xc yc (word_of_int x) (word_of_int y) state of
                 (r, p') \<Rightarrow> drawCircle_loop w xc yc state x y pk (b \<and> r) p')
         else
           (let pk = to_int w (to_int w (pk + to_int w (4 * to_int w (x - y))) + 10);
                x = to_int w (x + 1);
                y = to_int w (y - 1)
            in case drawCirclePoints p xc yc (word_of_int x) (word_of_int y) state of
                 (r, p') \<Rightarrow> drawCircle_loop w xc yc state x y pk (b \<and> r) p'))
      else Some (b, p))"

declare drawCircle_loop.simps [code]

text \<open>
  \<^verbatim>\<open>r\<close> is \<^verbatim>\<open>uint16_t\<close>. \<^verbatim>\<open>int y = r\<close> converts it to \<^verbatim>\<open>int\<close>. In \<^verbatim>\<open>3 - (2 * r)\<close> a 16-bit
  \<^verbatim>\<open>int\<close> makes the arithmetic \<^verbatim>\<open>unsigned int\<close>, modulo \<open>2 ^ 16\<close>, and the result is converted
  to \<^verbatim>\<open>int\<close>; a wider \<^verbatim>\<open>int\<close> promotes \<^verbatim>\<open>r\<close> and computes in \<^verbatim>\<open>int\<close>. Either way the value
  stored is \<open>to_int w (3 - 2 * r)\<close>.
\<close>

definition drawCircle ::
  "nat \<Rightarrow> panel \<Rightarrow> coord \<Rightarrow> coord \<Rightarrow> coord \<Rightarrow> bool \<Rightarrow> (bool \<times> panel) option" where
  "drawCircle w p xc yc r state =
     (let x = 0;
          y = to_int w (uint r);
          pk = to_int w (3 - (2 * uint r));
          b = False;
          p = p\<lparr>D := D_control_UPDATE (D p) False\<rparr>;
          (r0, p) = drawCirclePoints p xc yc (word_of_int x) (word_of_int y) state;
          b = (b \<and> r0)
      in case drawCircle_loop w xc yc state x y pk b p of
           None \<Rightarrow> None
         | Some (b, p1) \<Rightarrow> Some (b, update p1 (updateEnabled p1)))"

subsection \<open>The effect of a sequence of pixel writes\<close>

text \<open>
  Notions used to state what a drawing operation has done: a coordinate is in range when
  \<open>setPoint\<close> accepts it, \<open>addr\<close> is the device address it is translated to, and
  \<open>plotted p pts state\<close> is the panel \<open>p\<close> after the points \<open>pts\<close> have been written
  with \<open>state\<close>, one \<open>setPoint\<close> call each.
\<close>

definition in_range :: "panel \<Rightarrow> coord \<times> coord \<Rightarrow> bool" where
  "in_range p pt = (fst pt \<le> getXMax p \<and> snd pt \<le> getYMax p)"

definition addr :: "panel \<Rightarrow> coord \<times> coord \<Rightarrow> coord \<times> coord" where
  "addr p pt = (Y2Row p (fst pt) (snd pt), X2Col p (fst pt) (snd pt))"

definition paint :: "bool \<Rightarrow> (coord \<times> coord) set \<Rightarrow> (coord \<times> coord) set \<Rightarrow> (coord \<times> coord) set" where
  "paint state A S = (if state then S \<union> A else S - A)"

definition plotted :: "panel \<Rightarrow> (coord \<times> coord) list \<Rightarrow> bool \<Rightarrow> panel" where
  "plotted p pts state =
     p\<lparr>D := (D p)\<lparr>pixels := paint state (addr p ` set (filter (in_range p) pts)) (pixels (D p))\<rparr>,
       setPointLog := setPointLog p @ pts\<rparr>"

text \<open>
  The points of a horizontal line at row \<open>y\<close> from column \<open>x1\<close> up to \<open>x2\<close>, and of a
  vertical line at column \<open>x\<close> from row \<open>y1\<close> up to \<open>y2\<close>, in the order of the loops.
\<close>

definition hline_points :: "coord \<Rightarrow> coord \<Rightarrow> coord \<Rightarrow> (coord \<times> coord) list" where
  "hline_points y x1 x2 = map (\<lambda>k. (word_of_nat k, y)) [unat x1 ..< Suc (unat x2)]"

definition vline_points :: "coord \<Rightarrow> coord \<Rightarrow> coord \<Rightarrow> (coord \<times> coord) list" where
  "vline_points x y1 y2 = map (\<lambda>k. (x, word_of_nat k)) [unat y1 ..< Suc (unat y2)]"

text \<open>The eight points of one call of \<open>drawCirclePoints\<close>, in the order of its writes.\<close>

definition circle_points8 :: "coord \<Rightarrow> coord \<Rightarrow> coord \<Rightarrow> coord \<Rightarrow> (coord \<times> coord) list" where
  "circle_points8 xc yc x y =
     [(xc + x, yc + y), (xc - x, yc + y), (xc + x, yc - y), (xc - x, yc - y),
      (xc + y, yc + x), (xc - y, yc + x), (xc + y, yc - x), (xc - y, yc - x)]"

text \<open>
  The coordinate as the translation folds it: \<open>folded p (x, y)\<close> is \<open>(y, x)\<close> on an unrotated
  panel and \<open>(getXMax - x, y)\<close> on a rotated one. The first component selects the row
  of devices and the row inside the device, the second the column in the row of devices.
  \<open>no_wrap\<close> says that the chain has at most 8192 devices, so that no column number
  exceeds 16 bits.
\<close>

definition folded :: "panel \<Rightarrow> coord \<times> coord \<Rightarrow> int \<times> int" where
  "folded p pt =
     (if rotatedDisplay p then (uint (getXMax p) - uint (fst pt), uint (snd pt))
      else (uint (snd pt), uint (fst pt)))"

definition no_wrap :: "panel \<Rightarrow> bool" where
  "no_wrap p = (uint (xDevices p) * uint (yDevices p) \<le> 8192)"

text \<open>
  The loop invariant of \<open>drawLine\<close>, over the integers. \<open>DX\<close> and \<open>DY\<close> are the values of
  \<^verbatim>\<open>dx\<close> and \<^verbatim>\<open>dy\<close>, \<open>A\<close> and \<open>B\<close> the steps that remain in x and in y, \<open>E\<close> the value
  of \<^verbatim>\<open>err\<close>, and \<open>line_err0\<close> its initial value \<^verbatim>\<open>(dx > dy ? dx : -dy) / 2\<close>.
\<close>

definition line_err0 :: "int \<Rightarrow> int \<Rightarrow> int" where
  "line_err0 DX DY = (if DY < DX then DX else - DY) sdiv 2"

definition line_inv :: "int \<Rightarrow> int \<Rightarrow> nat \<Rightarrow> nat \<Rightarrow> int \<Rightarrow> bool" where
  "line_inv DX DY A B E =
     (int A \<le> DX \<and> int B \<le> DY \<and> E = line_err0 DX DY + int A * DY - int B * DX \<and>
      (if DY < DX then 0 \<le> E \<and> E < DX else - DY < E \<and> E \<le> 0))"

text \<open>The points of a line with \<open>dx = 0\<close> that ends in \<open>(x, y2)\<close> after \<open>B\<close> steps of \<open>sy\<close>.\<close>

definition vertical_run :: "coord \<Rightarrow> coord \<Rightarrow> coord \<Rightarrow> nat \<Rightarrow> (coord \<times> coord) list" where
  "vertical_run x y2 sy B = map (\<lambda>k. (x, y2 - sy * word_of_nat k)) (rev [0 ..< Suc B])"

text \<open>The pixel writes issued since the panel was in state \<open>p\<close>.\<close>

definition writes_since :: "panel \<Rightarrow> panel \<Rightarrow> (coord \<times> coord) list" where
  "writes_since p p' = drop (length (setPointLog p)) (setPointLog p')"

subsection \<open>The midpoint circle algorithm as the spec words it\<close>

text \<open>
  The spec: "Starting decision parameter \<open>pk = 3 - 2r\<close>, \<open>x = 0\<close>, \<open>y = r\<close>; at each step
  if \<open>pk \<le> 0\<close>, advance x only and update \<open>pk += 4x + 6\<close>; otherwise advance x and
  retreat y, updating \<open>pk += 4(x - y) + 10\<close>. At every step, plot all eight symmetric
  points \<open>(xc \<plusminus> x, yc \<plusminus> y)\<close> and \<open>(xc \<plusminus> y, yc \<plusminus> x)\<close>. Loop terminates when
  \<open>x \<ge> y\<close>." This is written over the mathematical integers, independently of the
  code: \<open>spec_midpoint_steps\<close> lists the offsets \<open>(x, y)\<close> of the steps and
  \<open>spec_circle\<close> is the set of points plotted.
\<close>

function spec_midpoint_steps :: "int \<Rightarrow> int \<Rightarrow> int \<Rightarrow> (int \<times> int) list" where
  "spec_midpoint_steps x y pk =
     (x, y) #
     (if x < y then
        (if pk \<le> 0 then spec_midpoint_steps (x + 1) y (pk + 4 * x + 6)
         else spec_midpoint_steps (x + 1) (y - 1) (pk + 4 * (x - y) + 10))
      else [])"
  by pat_completeness auto
termination
  by (relation "measure (\<lambda>(x, y, pk). nat (y - x))") auto

declare spec_midpoint_steps.simps [simp del]

definition spec_symmetric8 :: "int \<Rightarrow> int \<Rightarrow> int \<times> int \<Rightarrow> (int \<times> int) set" where
  "spec_symmetric8 xc yc s =
     (case s of (x, y) \<Rightarrow>
        {(xc + x, yc + y), (xc - x, yc + y), (xc + x, yc - y), (xc - x, yc - y),
         (xc + y, yc + x), (xc - y, yc + x), (xc + y, yc - x), (xc - y, yc - x)})"

definition spec_circle_from :: "int \<Rightarrow> int \<Rightarrow> int \<Rightarrow> int \<Rightarrow> (int \<times> int) set" where
  "spec_circle_from xc yc r pk = \<Union> (spec_symmetric8 xc yc ` set (spec_midpoint_steps 0 r pk))"

definition spec_circle :: "int \<Rightarrow> int \<Rightarrow> int \<Rightarrow> (int \<times> int) set" where
  "spec_circle xc yc r = spec_circle_from xc yc r (3 - 2 * r)"

text \<open>Passing a point to \<^verbatim>\<open>setPoint\<close> narrows its coordinates to \<^verbatim>\<open>uint16_t\<close>.\<close>

definition narrow :: "int \<times> int \<Rightarrow> coord \<times> coord" where
  "narrow pt = (word_of_int (fst pt), word_of_int (snd pt))"


section \<open>Panel geometry and point access\<close>

lemma unat8_lt: "unat (d :: 8 word) < 256"
  using unsigned_less [of d, where 'a=nat] by simp

lemma unat16_lt: "unat (d :: coord) < 65536"
  using unsigned_less [of d, where 'a=nat] by simp

lemma unat_ucast8: "unat (ucast (d :: 8 word) :: coord) = unat d"
  using unat8_lt [of d] by (simp add: unsigned_ucast_eq take_bit_nat_eq_self)

lemma unat_devs8: "unat ((ucast (d :: 8 word) :: coord) * 8) = unat d * 8"
  using unat8_lt [of d] by (simp add: unat_word_ariths unat_ucast8)

lemma unat_devs8m1:
  assumes "1 \<le> (d :: 8 word)"
  shows "unat ((ucast d :: coord) * 8 - 1) = unat d * 8 - 1"
proof -
  from assms have "1 \<le> unat d" by (simp add: word_le_nat_alt)
  then have "unat ((ucast d :: coord) * 8) \<noteq> 0" by (simp add: unat_devs8)
  then have "(ucast d :: coord) * 8 \<noteq> 0" by (metis unsigned_0)
  then show ?thesis by (simp add: unat_minus_one unat_devs8)
qed

lemma unat_getMax:
  assumes "panel_ok p"
  shows "unat (getXMax p) = (if rotatedDisplay p then unat (yDevices p) * 8 - 1 else unat (xDevices p) * 8 - 1)
       \<and> unat (getYMax p) = (if rotatedDisplay p then unat (xDevices p) * 8 - 1 else unat (yDevices p) * 8 - 1)"
  using assms by (simp add: getXMax_def getYMax_def panel_ok_def ROW_SIZE_def COL_SIZE_def unat_devs8m1)

text \<open>
  Claim C5. On a panel with at least one device in each direction, \<open>getXMax\<close> is
  \<open>xDevices * 8 - 1\<close> and \<open>getYMax\<close> is \<open>yDevices * 8 - 1\<close> while the rotation flag is
  clear, and the two values are swapped while it is set.
\<close>
theorem getMax_values:
  assumes "panel_ok p"
  shows "unat (getXMax p) = (if rotatedDisplay p then unat (yDevices p) * 8 - 1 else unat (xDevices p) * 8 - 1)
       \<and> unat (getYMax p) = (if rotatedDisplay p then unat (xDevices p) * 8 - 1 else unat (yDevices p) * 8 - 1)"
  using assms by (rule unat_getMax)

theorem getMax_values_witness:
  "panel_ok (blank_panel 4 5 False) \<and> unat (getXMax (blank_panel 4 5 False)) = 31 \<and> unat (getYMax (blank_panel 4 5 False)) = 39
  \<and> panel_ok (blank_panel 4 5 True) \<and> unat (getXMax (blank_panel 4 5 True)) = 39 \<and> unat (getYMax (blank_panel 4 5 True)) = 31"
  using getMax_values [of "blank_panel 4 5 False"] getMax_values [of "blank_panel 4 5 True"]
  by (simp add: panel_ok_def blank_panel_def)

text \<open>
  Claim C3. When \<open>x > getXMax\<close> or \<open>y > getYMax\<close>, \<open>setPoint\<close> returns false and
  \<open>getPoint\<close> returns false; \<open>getPoint\<close> is a pure read, and \<open>setPoint\<close> leaves the
  driver (the display state) and every member of the panel as they were: only the
  history variable records the call.
\<close>
theorem setPoint_getPoint_out_of_range:
  assumes "x > getXMax p \<or> y > getYMax p"
  shows "fst (setPoint p x y state) = False \<and> getPoint p x y = False
       \<and> snd (setPoint p x y state) = p\<lparr>setPointLog := setPointLog p @ [(x, y)]\<rparr>
       \<and> D (snd (setPoint p x y state)) = D p"
  using assms by (auto simp add: setPoint_def getPoint_def)

theorem setPoint_getPoint_out_of_range_witness:
  "(32 > getXMax (blank_panel 4 5 False) \<or> 17 > getYMax (blank_panel 4 5 False))
   \<and> fst (setPoint (blank_panel 4 5 False) 32 17 True) = False
   \<and> getPoint (blank_panel 4 5 False) 32 17 = False
   \<and> D (snd (setPoint (blank_panel 4 5 False) 32 17 True)) = D (blank_panel 4 5 False)"
proof -
  have h: "32 > getXMax (blank_panel 4 5 False) \<or> 17 > getYMax (blank_panel 4 5 False)"
    by (simp add: getXMax_def blank_panel_def COL_SIZE_def)
  from setPoint_getPoint_out_of_range [OF h, of True] h show ?thesis by simp
qed

lemma getMax_upd [simp]:
  "getXMax (p\<lparr>D := d\<rparr>) = getXMax p" "getYMax (p\<lparr>D := d\<rparr>) = getYMax p"
  "getXMax (p\<lparr>setPointLog := l\<rparr>) = getXMax p" "getYMax (p\<lparr>setPointLog := l\<rparr>) = getYMax p"
  "getXMax (p\<lparr>updateEnabled := u\<rparr>) = getXMax p" "getYMax (p\<lparr>updateEnabled := u\<rparr>) = getYMax p"
  by (simp_all add: getXMax_def getYMax_def)

lemma addr_upd [simp]:
  "Y2Row (p\<lparr>D := d\<rparr>) = Y2Row p" "X2Col (p\<lparr>D := d\<rparr>) = X2Col p"
  "Y2Row (p\<lparr>setPointLog := l\<rparr>) = Y2Row p" "X2Col (p\<lparr>setPointLog := l\<rparr>) = X2Col p"
  "Y2Row (p\<lparr>updateEnabled := u\<rparr>) = Y2Row p" "X2Col (p\<lparr>updateEnabled := u\<rparr>) = X2Col p"
  by (simp_all add: Y2Row_def X2Col_def fun_eq_iff)

text \<open>
  Claim C4. For an in-range coordinate, \<open>setPoint(x, y, true)\<close> succeeds and a following
  \<open>getPoint(x, y)\<close> returns true; a subsequent \<open>setPoint(x, y, false)\<close> succeeds and
  \<open>getPoint(x, y)\<close> then returns false.
\<close>
theorem setPoint_getPoint_roundtrip:
  assumes "panel_ok p" and "x \<le> getXMax p" and "y \<le> getYMax p"
  shows "fst (setPoint p x y True) \<and> getPoint (snd (setPoint p x y True)) x y
       \<and> fst (setPoint (snd (setPoint p x y True)) x y False)
       \<and> \<not> getPoint (snd (setPoint (snd (setPoint p x y True)) x y False)) x y"
  using assms(2,3)
  by (simp add: setPoint_def getPoint_def D_setPoint_def D_getPoint_def not_less [symmetric])

theorem setPoint_getPoint_roundtrip_witness:
  "panel_ok (blank_panel 4 5 False) \<and> 31 \<le> getXMax (blank_panel 4 5 False)
   \<and> 17 \<le> getYMax (blank_panel 4 5 False)
   \<and> getPoint (snd (setPoint (blank_panel 4 5 False) 31 17 True)) 31 17
   \<and> \<not> getPoint (snd (setPoint (snd (setPoint (blank_panel 4 5 False) 31 17 True)) 31 17 False)) 31 17"
proof -
  have h: "panel_ok (blank_panel 4 5 False)" "31 \<le> getXMax (blank_panel 4 5 False)"
    "17 \<le> getYMax (blank_panel 4 5 False)"
    by (simp_all add: panel_ok_def blank_panel_def getXMax_def getYMax_def ROW_SIZE_def COL_SIZE_def)
  from setPoint_getPoint_roundtrip [OF h] h show ?thesis by simp
qed

subsection \<open>Bounds of the translated address\<close>

lemma int_unat: "int (unat w) = uint w"
  by simp

lemma uint_devs8: "uint ((ucast (d :: 8 word) :: coord) * 8) = uint d * 8"
proof -
  have "int (unat ((ucast d :: coord) * 8)) = int (unat d * 8)"
    by (simp only: unat_devs8)
  then show ?thesis by (simp only: int_unat of_nat_mult of_nat_numeral)
qed

lemma Y2Row_le7: "uint (8 - ((v :: coord) mod 8) - 1) = 7 - uint v mod 8"
proof -
  have "v mod 8 = word_of_int (uint (v mod 8))" by (simp only: word_of_int_uint)
  then have "8 - (v mod 8) - 1 = (word_of_int (7 - uint v mod 8) :: coord)"
    by (simp add: wi_hom_syms uint_mod)
  then have "uint (8 - (v mod 8) - 1) = uint (word_of_int (7 - uint v mod 8) :: coord)"
    by (simp only:)
  moreover have "0 \<le> uint v mod 8" "uint v mod 8 < 8" by simp_all
  then have "(7 - uint v mod 8) mod 65536 = 7 - uint v mod 8" by simp
  ultimately show ?thesis by (simp only: uint_word_of_int) simp
qed

lemma Y2Row_le7': "uint (7 - ((v :: coord) mod 8)) = 7 - uint v mod 8"
  using Y2Row_le7 [of v] by simp

lemma col_bound:
  fixes a W m :: coord
  assumes "uint m < uint W" and "uint a < N"
  shows "uint (a * W + W - 1 - m) \<le> N * uint W - 1"
proof -
  define K where "K = uint a * uint W + uint W - 1 - uint m"
  have e: "a * W + W - 1 - m = word_of_int K"
    by (simp add: K_def wi_hom_syms)
  have "0 \<le> uint a * uint W" by simp
  with assms(1) have k0: "0 \<le> K" unfolding K_def by linarith
  have "uint a * uint W \<le> (N - 1) * uint W"
    using assms(2) by (intro mult_right_mono) simp_all
  moreover have "(N - 1) * uint W = N * uint W - uint W" by (simp add: algebra_simps)
  moreover have "0 \<le> uint m" by simp
  ultimately have k1: "K \<le> N * uint W - 1"
    unfolding K_def by linarith
  have "uint (word_of_int K :: coord) \<le> K"
    using k0 by (simp add: uint_word_of_int zmod_le_nonneg_dividend)
  with e k1 show ?thesis by simp
qed


lemma uint_getMax:
  assumes "panel_ok p"
  shows "uint (getXMax p) = (if rotatedDisplay p then uint (yDevices p) * 8 - 1 else uint (xDevices p) * 8 - 1)"
    and "uint (getYMax p) = (if rotatedDisplay p then uint (xDevices p) * 8 - 1 else uint (yDevices p) * 8 - 1)"
proof -
  have d: "1 \<le> unat (xDevices p)" "1 \<le> unat (yDevices p)"
    using assms by (simp_all add: panel_ok_def word_le_nat_alt)
  have "int (unat (getXMax p)) = (if rotatedDisplay p then int (unat (yDevices p)) * 8 - 1 else int (unat (xDevices p)) * 8 - 1)"
    using unat_getMax [OF assms] d by simp
  then show "uint (getXMax p) = (if rotatedDisplay p then uint (yDevices p) * 8 - 1 else uint (xDevices p) * 8 - 1)"
    by (simp only: int_unat)
  have "int (unat (getYMax p)) = (if rotatedDisplay p then int (unat (xDevices p)) * 8 - 1 else int (unat (yDevices p)) * 8 - 1)"
    using unat_getMax [OF assms] d by simp
  then show "uint (getYMax p) = (if rotatedDisplay p then uint (xDevices p) * 8 - 1 else uint (yDevices p) * 8 - 1)"
    by (simp only: int_unat)
qed

lemma W_pos:
  assumes "panel_ok p"
  shows "0 < uint ((ucast (xDevices p) :: coord) * 8)"
proof -
  have "1 \<le> unat (xDevices p)" using assms by (simp add: panel_ok_def word_le_nat_alt)
  then have "int 1 \<le> int (unat (xDevices p))" by (simp only: of_nat_le_iff)
  then have "1 \<le> uint (xDevices p)" by (simp only: int_unat of_nat_1)
  then show ?thesis by (simp only: uint_devs8)
qed

text \<open>
  Claim C10. For an in-range coordinate and either value of the rotation flag, the
  translated address is in range: the row \<open>Y2Row\<close> is at most 7 and the column \<open>X2Col\<close>
  is at most \<open>8 * xDevices * yDevices - 1\<close>; these are the row and the column that
  \<open>setPoint\<close> and \<open>getPoint\<close> hand to the driver.
\<close>
theorem address_in_bounds:
  assumes "panel_ok p" and "x \<le> getXMax p" and "y \<le> getYMax p"
  shows "unat (Y2Row p x y) \<le> 7
       \<and> unat (X2Col p x y) \<le> 8 * unat (xDevices p) * unat (yDevices p) - 1"
proof -
  let ?W = "(ucast (xDevices p) :: coord) * 8"
  have W: "0 < uint ?W" by (rule W_pos [OF assms(1)])
  have xm: "uint x \<le> uint (getXMax p)" and ym: "uint y \<le> uint (getYMax p)"
    using assms(2,3) by (simp_all add: word_le_def)
  have row: "uint (Y2Row p x y) \<le> 7"
    by (simp add: Y2Row_def ROW_SIZE_def Let_def Y2Row_le7')
  have col: "uint (X2Col p x y) \<le> uint (yDevices p) * uint ?W - 1"
  proof (cases "rotatedDisplay p")
    case False
    have "uint (x mod ?W) < uint ?W" using W by (simp add: uint_mod)
    moreover have "uint (y div 8) < uint (yDevices p)"
      using ym uint_getMax(2) [OF assms(1)] False by (simp add: uint_div) 
    ultimately have "uint (y div 8 * ?W + ?W - 1 - x mod ?W) \<le> uint (yDevices p) * uint ?W - 1"
      by (rule col_bound)
    then show ?thesis
      using False by (simp add: X2Col_def ROW_SIZE_def COL_SIZE_def)
  next
    case True
    have "uint (getXMax p - x) = uint (getXMax p) - uint x"
      using assms(2) by (simp add: uint_sub_if' word_le_def)
    moreover have "0 \<le> uint x" by simp
    moreover have "\<And>Y u :: int. 0 \<le> u \<Longrightarrow> (Y * 8 - 1 - u) div 8 < Y" by presburger
    ultimately have "uint ((getXMax p - x) div 8) < uint (yDevices p)"
      using uint_getMax(1) [OF assms(1)] True by (simp add: uint_div)
    moreover have "uint (y mod ?W) < uint ?W" using W by (simp add: uint_mod)
    ultimately have "uint ((getXMax p - x) div 8 * ?W + ?W - 1 - y mod ?W) \<le> uint (yDevices p) * uint ?W - 1"
      by (rule col_bound [rotated])
    then show ?thesis
      using True by (simp add: X2Col_def ROW_SIZE_def COL_SIZE_def Let_def)
  qed
  have "int (unat (Y2Row p x y)) \<le> 7" using row by (simp only: int_unat)
  then have r: "unat (Y2Row p x y) \<le> 7" by linarith
  have "int (unat (X2Col p x y)) \<le> int (unat (yDevices p)) * (int (unat (xDevices p)) * 8) - 1"
    using col by (simp only: int_unat uint_devs8)
  then have "int (unat (X2Col p x y)) \<le> int (8 * unat (xDevices p) * unat (yDevices p)) - 1"
    by (simp add: algebra_simps)
  then have c: "unat (X2Col p x y) \<le> 8 * unat (xDevices p) * unat (yDevices p) - 1"
    by linarith
  from r c show ?thesis by simp
qed

theorem address_in_bounds_witness:
  "panel_ok (blank_panel 4 5 True) \<and> 39 \<le> getXMax (blank_panel 4 5 True) \<and> 31 \<le> getYMax (blank_panel 4 5 True)
   \<and> unat (Y2Row (blank_panel 4 5 True) 39 31) \<le> 7
   \<and> unat (X2Col (blank_panel 4 5 True) 39 31) \<le> 159"
proof -
  have h: "panel_ok (blank_panel 4 5 True)" "39 \<le> getXMax (blank_panel 4 5 True)" "31 \<le> getYMax (blank_panel 4 5 True)"
    by (simp_all add: panel_ok_def blank_panel_def getXMax_def getYMax_def ROW_SIZE_def COL_SIZE_def)
  from address_in_bounds [OF h] h show ?thesis by (simp add: blank_panel_def)
qed


section \<open>Sequences of pixel writes\<close>

lemma in_range_upd [simp]:
  "in_range (p\<lparr>D := d\<rparr>) = in_range p"
  "in_range (p\<lparr>setPointLog := l\<rparr>) = in_range p"
  "in_range (p\<lparr>updateEnabled := u\<rparr>) = in_range p"
  by (simp_all add: in_range_def fun_eq_iff)

lemma addr_fn_upd [simp]:
  "addr (p\<lparr>D := d\<rparr>) = addr p"
  "addr (p\<lparr>setPointLog := l\<rparr>) = addr p"
  "addr (p\<lparr>updateEnabled := u\<rparr>) = addr p"
  by (simp_all add: addr_def fun_eq_iff)

lemma plotted_Nil [simp]: "plotted p [] state = p"
  by (simp add: plotted_def paint_def)

lemma in_range_plotted [simp]: "in_range (plotted p pts state) = in_range p"
  by (simp add: plotted_def)

lemma addr_plotted [simp]: "addr (plotted p pts state) = addr p"
  by (simp add: plotted_def)

lemma paint_paint: "paint state B (paint state A S) = paint state (A \<union> B) S"
  by (auto simp add: paint_def)

lemma plotted_plotted: "plotted (plotted p xs state) ys state = plotted p (xs @ ys) state"
  by (simp add: plotted_def paint_paint image_Un)

lemma setPoint_plotted:
  "setPoint p x y state = (in_range p (x, y), plotted p [(x, y)] state)"
  by (auto simp add: setPoint_def in_range_def plotted_def paint_def addr_def D_setPoint_def not_less)

lemma plotted_fields [simp]:
  "xDevices (plotted p pts state) = xDevices p"
  "yDevices (plotted p pts state) = yDevices p"
  "rotatedDisplay (plotted p pts state) = rotatedDisplay p"
  "updateEnabled (plotted p pts state) = updateEnabled p"
  "autoUpdate (D (plotted p pts state)) = autoUpdate (D p)"
  "setPointLog (plotted p pts state) = setPointLog p @ pts"
  "pixels (D (plotted p pts state)) = paint state (addr p ` set (filter (in_range p) pts)) (pixels (D p))"
  by (simp_all add: plotted_def)

lemma getMax_plotted [simp]:
  "getXMax (plotted p pts state) = getXMax p" "getYMax (plotted p pts state) = getYMax p"
  by (simp_all add: plotted_def)

lemma writes_since_plotted [simp]: "writes_since p (plotted p pts state) = pts"
  by (simp add: writes_since_def)

lemma getPoint_plotted_in:
  assumes "pt \<in> set pts" and "in_range p pt"
  shows "getPoint (plotted p pts state) (fst pt) (snd pt) = state"
proof -
  have "addr p pt \<in> addr p ` set (filter (in_range p) pts)" using assms by simp
  then have "(addr p pt \<in> paint state (addr p ` set (filter (in_range p) pts)) (pixels (D p))) = state"
    by (simp add: paint_def)
  moreover have "getPoint (plotted p pts state) (fst pt) (snd pt)
      = (addr p pt \<in> pixels (D (plotted p pts state)))"
    using assms(2) by (simp add: getPoint_def in_range_def D_getPoint_def addr_def plotted_def not_less [symmetric])
  ultimately show ?thesis by simp
qed

section \<open>Horizontal lines\<close>

lemma word_of_nat_unat16: "word_of_nat (unat (w :: coord)) = w"
  by simp

lemma unat_succ16:
  assumes "(i :: coord) \<le> x2" and "x2 \<noteq> - 1"
  shows "unat (i + 1) = Suc (unat i)"
proof -
  have "unat i \<le> unat x2" using assms(1) by (simp add: word_le_nat_alt)
  moreover have "unat x2 \<noteq> 65535"
  proof
    assume "unat x2 = 65535"
    then have "word_of_nat (unat x2) = (word_of_nat 65535 :: coord)" by (simp only:)
    then show False using assms(2) by simp
  qed
  moreover have "unat x2 < 65536" using unsigned_less [of x2, where 'a=nat] by simp
  ultimately have "unat i + 1 < 65536" by linarith
  then show ?thesis by (simp add: unat_word_ariths)
qed

lemma drawHLine_loop_run:
  assumes "x2 \<noteq> - 1"
  shows "drawHLine_loop i x2 y state b p =
    Some (b \<and> list_all (in_range p) (hline_points y i x2), plotted p (hline_points y i x2) state)"
proof (induction "Suc (unat x2) - unat i" arbitrary: i b p)
  case 0
  then have "\<not> i \<le> x2" by (simp add: word_le_nat_alt)
  moreover from 0 have "hline_points y i x2 = []" by (simp add: hline_points_def)
  ultimately show ?case by (subst drawHLine_loop.simps) simp
next
  case (Suc n)
  then have le: "i \<le> x2" by (simp add: word_le_nat_alt)
  have s: "unat (i + 1) = Suc (unat i)" using le assms by (rule unat_succ16)
  have n: "n = Suc (unat x2) - unat (i + 1)" using Suc(2) s by simp
  have "unat i < Suc (unat x2)" using le by (simp add: word_le_nat_alt)
  then have "[unat i ..< Suc (unat x2)] = unat i # [Suc (unat i) ..< Suc (unat x2)]"
    by (rule upt_conv_Cons)
  then have pts: "hline_points y i x2 = (i, y) # hline_points y (i + 1) x2"
    by (simp only: hline_points_def s list.map word_of_nat_unat16)
  show ?case
    by (subst drawHLine_loop.simps)
      (simp add: le setPoint_plotted Suc(1) [OF n] pts plotted_plotted conj_ac)
qed

lemma drawHLine_loop_never:
  assumes "drawHLine_loop i x2 y state b p = Some r"
  shows "x2 \<noteq> - 1"
proof (rule drawHLine_loop.raw_induct [where P = "\<lambda>i x2 y state b p r. x2 \<noteq> - 1", OF _ assms])
  fix loop :: "coord \<Rightarrow> coord \<Rightarrow> coord \<Rightarrow> bool \<Rightarrow> bool \<Rightarrow> panel \<Rightarrow> (bool \<times> panel) option"
  fix i x2 y :: coord and state b :: bool and p :: panel and r :: "bool \<times> panel"
  assume IH: "\<And>i x2 y state b p r. loop i x2 y state b p = Some r \<Longrightarrow> x2 \<noteq> - 1"
  assume body: "(if i \<le> x2 then case setPoint p i y state of
       (r, p') \<Rightarrow> loop (i + 1) x2 y state (b \<and> r) p' else Some (b, p)) = Some r"
  show "x2 \<noteq> - 1"
  proof (cases "i \<le> x2")
    case True
    with body obtain b' p' where "loop (i + 1) x2 y state b' p' = Some r"
      by (auto split: prod.splits)
    then show ?thesis by (rule IH)
  next
    case False
    then show ?thesis by (metis word_order.extremum)
  qed
qed

lemma set_hline_points:
  "set (hline_points y x1 x2) = {(i, y) | i. x1 \<le> i \<and> i \<le> x2}"
proof -
  have "word_of_nat ` {unat x1 ..< Suc (unat x2)} = {i :: coord. x1 \<le> i \<and> i \<le> x2}"
  proof (intro set_eqI iffI)
    fix i :: coord
    assume "i \<in> word_of_nat ` {unat x1 ..< Suc (unat x2)}"
    then obtain k where k: "i = word_of_nat k" "unat x1 \<le> k" "k \<le> unat x2" by auto
    have "k < 65536" using k(3) unsigned_less [of x2, where 'a=nat] by simp
    then have "unat i = k" using k(1) by (simp add: unat_of_nat)
    with k show "i \<in> {i. x1 \<le> i \<and> i \<le> x2}" by (simp add: word_le_nat_alt)
  next
    fix i :: coord
    assume "i \<in> {i. x1 \<le> i \<and> i \<le> x2}"
    then have "unat i \<in> {unat x1 ..< Suc (unat x2)}" by (simp add: word_le_nat_alt)
    then have "word_of_nat (unat i) \<in> (word_of_nat ` {unat x1 ..< Suc (unat x2)} :: coord set)"
      by (rule imageI)
    then show "i \<in> word_of_nat ` {unat x1 ..< Suc (unat x2)}" by simp
  qed
  moreover have "set (hline_points y x1 x2) = (\<lambda>i. (i, y)) ` (word_of_nat ` {unat x1 ..< Suc (unat x2)})"
    by (simp only: hline_points_def set_map set_upt image_image)
  ultimately have "set (hline_points y x1 x2) = (\<lambda>i. (i, y)) ` {i. x1 \<le> i \<and> i \<le> x2}"
    by (simp only:)
  then show ?thesis by auto
qed

lemma getPoint_update [simp]: "getPoint (update p u) = getPoint p"
  by (simp add: update_def getPoint_def fun_eq_iff D_control_UPDATE_def D_getPoint_def)

lemma getPoint_D_control:
  "getPoint (plotted (p\<lparr>D := D_control_UPDATE (D p) v\<rparr>) pts state) = getPoint (plotted p pts state)"
  by (simp add: getPoint_def fun_eq_iff D_control_UPDATE_def D_getPoint_def plotted_def)

lemma drawHLine_run:
  assumes "x1 \<noteq> - 1" and "x2 \<noteq> - 1"
  shows "drawHLine p y x1 x2 state =
    Some (list_all (in_range p) (hline_points y (min x1 x2) (max x1 x2)),
          update (plotted (p\<lparr>D := D_control_UPDATE (D p) False\<rparr>) (hline_points y (min x1 x2) (max x1 x2)) state) (updateEnabled p))"
proof (cases "x1 > x2")
  case True
  then have "min x1 x2 = x2" "max x1 x2 = x1" by auto
  then show ?thesis using True assms by (simp add: drawHLine_def drawHLine_loop_run)
next
  case False
  then have "min x1 x2 = x1" "max x1 x2 = x2" by auto
  then show ?thesis using False assms by (simp add: drawHLine_def drawHLine_loop_run)
qed

lemma drawHLine_loop_max: "drawHLine_loop i 65535 y state b p = None"
proof (cases "drawHLine_loop i 65535 y state b p")
  case None
  then show ?thesis .
next
  case (Some r)
  then have "(65535 :: coord) \<noteq> - 1" by (rule drawHLine_loop_never)
  then show ?thesis by simp
qed

lemma below_max_word:
  assumes "max x1 x2 < (65535 :: coord)"
  shows "x1 \<noteq> - 1" and "x2 \<noteq> - 1"
  using assms by auto

text \<open>
  Claim C2, amended. On a panel with at least one device in each direction and for
  \<open>max x1 x2 < 65535\<close>, \<open>drawHLine(y, x1, x2, state)\<close> returns; afterwards every
  in-range point \<open>(i, y)\<close> with \<open>min x1 x2 \<le> i \<le> max x1 x2\<close> reads back as \<open>state\<close>, and
  the result is false if and only if some such point is out of range. For the bound
  65535 the 16-bit loop counter wraps and the loop never exits (the counterexample
  below). The witness is the example of the claim: on the unrotated 4x5 panel
  \<open>drawHLine(17, 0, 39)\<close> returns false and sets the pixels (0,17) to (31,17).
\<close>
theorem drawHLine_sets_points:
  assumes "panel_ok p" and "max x1 x2 < 65535"
  shows "\<exists>b p'. drawHLine p y x1 x2 state = Some (b, p')
     \<and> (\<forall>i. min x1 x2 \<le> i \<and> i \<le> max x1 x2 \<and> i \<le> getXMax p \<and> y \<le> getYMax p
            \<longrightarrow> getPoint p' i y = state)
     \<and> (b = False) = (\<exists>i. min x1 x2 \<le> i \<and> i \<le> max x1 x2 \<and> (i > getXMax p \<or> y > getYMax p))"
proof -
  let ?pts = "hline_points y (min x1 x2) (max x1 x2)"
  let ?p0 = "p\<lparr>D := D_control_UPDATE (D p) False\<rparr>"
  let ?b = "list_all (in_range p) ?pts"
  let ?p' = "update (plotted ?p0 ?pts state) (updateEnabled p)"
  have run: "drawHLine p y x1 x2 state = Some (?b, ?p')"
    using below_max_word [OF assms(2)] by (rule drawHLine_run)
  have pts: "set ?pts = {(i, y) | i. min x1 x2 \<le> i \<and> i \<le> max x1 x2}"
    by (rule set_hline_points)
  have lit: "getPoint ?p' i y = state"
    if "min x1 x2 \<le> i \<and> i \<le> max x1 x2 \<and> i \<le> getXMax p \<and> y \<le> getYMax p" for i
  proof -
    have "(i, y) \<in> set ?pts" using that pts by simp
    moreover have "in_range p (i, y)" using that by (simp add: in_range_def)
    ultimately have "getPoint (plotted p ?pts state) (fst (i, y)) (snd (i, y)) = state"
      by (rule getPoint_plotted_in)
    then show ?thesis by (simp add: getPoint_D_control)
  qed
  have res: "(?b = False) = (\<exists>i. min x1 x2 \<le> i \<and> i \<le> max x1 x2 \<and> (i > getXMax p \<or> y > getYMax p))"
    by (auto simp add: list_all_iff pts in_range_def not_le)
  from run lit res show ?thesis by blast
qed

text \<open>
  With \<open>x2 = 65535\<close> the condition \<^verbatim>\<open>i <= x2\<close> holds for every value of the counter.
\<close>

theorem drawHLine_sets_points_counterexample:
  "drawHLine (blank_panel 4 5 False) 17 0 65535 True = None"
  by (simp add: drawHLine_def drawHLine_loop_max)

theorem drawHLine_sets_points_witness:
  "panel_ok (blank_panel 4 5 False) \<and> max 0 39 < (65535 :: coord)
   \<and> getXMax (blank_panel 4 5 False) = 31 \<and> getYMax (blank_panel 4 5 False) = 39
   \<and> (\<exists>p'. drawHLine (blank_panel 4 5 False) 17 0 39 True = Some (False, p')
         \<and> list_all (\<lambda>i. getPoint p' i 17) (map word_of_nat [0 ..< 32]))"
proof -
  let ?P = "blank_panel 4 5 False"
  have h: "panel_ok ?P" "max 0 39 < (65535 :: coord)"
    by (simp_all add: panel_ok_def blank_panel_def)
  have m: "getXMax ?P = 31" "getYMax ?P = 39"
    by (simp_all add: blank_panel_def getXMax_def getYMax_def ROW_SIZE_def COL_SIZE_def)
  from drawHLine_sets_points [OF h, of 17 True] obtain b p' where
    run: "drawHLine ?P 17 0 39 True = Some (b, p')"
    and lit: "\<And>i. min 0 39 \<le> i \<and> i \<le> max 0 (39 :: coord) \<and> i \<le> getXMax ?P \<and> 17 \<le> getYMax ?P \<Longrightarrow> getPoint p' i 17 = True"
    and res: "(b = False) = (\<exists>i. min 0 39 \<le> i \<and> i \<le> max 0 (39 :: coord) \<and> (i > getXMax ?P \<or> 17 > getYMax ?P))"
    by blast
  have "min 0 39 \<le> (32 :: coord) \<and> 32 \<le> max 0 (39 :: coord) \<and> (32 > getXMax ?P \<or> 17 > getYMax ?P)"
    by (simp add: m)
  with res have b: "b = False" by blast
  have "getPoint p' i 17" if "i \<le> 31" for i
  proof -
    have "i \<le> 39" using that by (rule order_trans) simp
    with that show ?thesis using lit [of i] by (simp add: m)
  qed
  then have "list_all (\<lambda>i. getPoint p' i 17) (map word_of_nat [0 ..< 32])"
    by (simp add: list_all_iff upt_rec word_le_nat_alt unat_of_nat)
  with h m run b show ?thesis by blast
qed

section \<open>Vertical lines\<close>

lemma unat_ucast8': "unat (ucast (i :: 8 word) :: coord) = unat i"
  by (rule unat_ucast8)

lemma drawVLine_loop_run:
  assumes "y2 \<le> 254"
  shows "drawVLine_loop i y2 x state b p =
    Some (b \<and> list_all (in_range p) (vline_points x (ucast i) y2), plotted p (vline_points x (ucast i) y2) state)"
proof (induction "Suc (unat y2) - unat i" arbitrary: i b p)
  case 0
  then have "\<not> ucast i \<le> y2" by (simp add: word_le_nat_alt unat_ucast8)
  moreover from 0 have "vline_points x (ucast i) y2 = []" by (simp add: vline_points_def unat_ucast8)
  ultimately show ?case by (subst drawVLine_loop.simps) simp
next
  case (Suc n)
  then have le: "ucast i \<le> y2" by (simp add: word_le_nat_alt unat_ucast8)
  have "unat y2 \<le> 254" using assms by (simp add: word_le_nat_alt)
  then have i: "unat i \<le> 254" using le by (simp add: word_le_nat_alt unat_ucast8)
  then have s: "unat (i + 1) = Suc (unat i)" by (simp add: unat_word_ariths)
  have n: "n = Suc (unat y2) - unat (i + 1)" using Suc(2) s by simp
  have "unat i < Suc (unat y2)" using le by (simp add: word_le_nat_alt unat_ucast8)
  then have "[unat i ..< Suc (unat y2)] = unat i # [Suc (unat i) ..< Suc (unat y2)]"
    by (rule upt_conv_Cons)
  moreover have "word_of_nat (unat i) = (ucast i :: coord)" by simp
  ultimately have pts: "vline_points x (ucast i) y2 = (x, ucast i) # vline_points x (ucast (i + 1)) y2"
    by (simp only: vline_points_def unat_ucast8 s list.map)
  show ?case
    by (subst drawVLine_loop.simps)
      (simp add: le setPoint_plotted Suc(1) [OF n] pts plotted_plotted conj_ac)
qed

lemma drawVLine_loop_never:
  assumes "drawVLine_loop i y2 x state b p = Some r"
  shows "y2 < 255"
proof (rule drawVLine_loop.raw_induct [where P = "\<lambda>i y2 x state b p r. y2 < 255", OF _ assms])
  fix loop :: "8 word \<Rightarrow> coord \<Rightarrow> coord \<Rightarrow> bool \<Rightarrow> bool \<Rightarrow> panel \<Rightarrow> (bool \<times> panel) option"
  fix y2 x :: coord and i :: "8 word" and state b :: bool and p :: panel and r :: "bool \<times> panel"
  assume IH: "\<And>i y2 x state b p r. loop i y2 x state b p = Some r \<Longrightarrow> y2 < 255"
  assume body: "(if ucast i \<le> y2 then case setPoint p x (ucast i) state of
       (r, p') \<Rightarrow> loop (i + 1) y2 x state (b \<and> r) p' else Some (b, p)) = Some r"
  show "y2 < 255"
  proof (cases "ucast i \<le> y2")
    case True
    with body obtain b' p' where "loop (i + 1) y2 x state b' p' = Some r"
      by (auto split: prod.splits)
    then show ?thesis by (rule IH)
  next
    case False
    then have "unat y2 < unat i" by (simp add: word_le_nat_alt unat_ucast8)
    moreover have "unat i < 256" using unsigned_less [of i, where 'a=nat] by simp
    ultimately show ?thesis by (simp add: word_less_nat_alt)
  qed
qed

lemma ucast_ucast_small:
  assumes "(y :: coord) \<le> 254"
  shows "(ucast (ucast y :: 8 word) :: coord) = y"
proof -
  have "unat y \<le> 254" using assms by (simp add: word_le_nat_alt)
  then have "unat (ucast (ucast y :: 8 word) :: coord) = unat y"
    by (simp add: unat_ucast8 unsigned_ucast_eq unsigned_take_bit_eq take_bit_nat_eq_self)
  then show ?thesis by (simp only: word_unat_eq_iff)
qed

lemma drawVLine_run:
  assumes "max y1 y2 \<le> 254"
  shows "drawVLine p x y1 y2 state =
    Some (list_all (in_range p) (vline_points x (min y1 y2) (max y1 y2)),
          update (plotted (p\<lparr>D := D_control_UPDATE (D p) False\<rparr>) (vline_points x (min y1 y2) (max y1 y2)) state) (updateEnabled p))"
proof -
  have b: "y1 \<le> 254" "y2 \<le> 254" using assms by auto
  show ?thesis
  proof (cases "y1 > y2")
    case True
    then have "min y1 y2 = y2" "max y1 y2 = y1" by auto
    then show ?thesis using True b
      by (simp add: drawVLine_def drawVLine_loop_run ucast_ucast_small)
  next
    case False
    then have "min y1 y2 = y1" "max y1 y2 = y2" by auto
    then show ?thesis using False b
      by (simp add: drawVLine_def drawVLine_loop_run ucast_ucast_small)
  qed
qed

lemma writes_since_update_plotted:
  "writes_since p (update (plotted (p\<lparr>D := d\<rparr>) pts state) u) = pts"
  by (simp add: writes_since_def update_def)

text \<open>
  Claim C9. For \<open>max y1 y2 \<le> 254\<close> the call \<open>drawVLine(x, y1, y2, state)\<close> returns, and it has
  issued exactly \<open>max y1 y2 - min y1 y2 + 1\<close> calls of \<open>setPoint\<close>.
\<close>
theorem drawVLine_terminates:
  assumes "panel_ok p" and "max y1 y2 \<le> 254"
  shows "\<exists>b p'. drawVLine p x y1 y2 state = Some (b, p')
     \<and> length (writes_since p p') = unat (max y1 y2) - unat (min y1 y2) + 1"
proof -
  let ?pts = "vline_points x (min y1 y2) (max y1 y2)"
  have "min y1 y2 \<le> max y1 y2" by (simp add: min_le_iff_disj le_max_iff_disj)
  then have "unat (min y1 y2) \<le> unat (max y1 y2)" by (simp only: word_le_nat_alt)
  then have "length ?pts = unat (max y1 y2) - unat (min y1 y2) + 1"
    by (simp add: vline_points_def Suc_diff_le)
  then show ?thesis
    using drawVLine_run [OF assms(2), of p x state] by (simp add: writes_since_update_plotted)
qed

theorem drawVLine_terminates_witness:
  "panel_ok (blank_panel 4 5 False) \<and> max 17 0 \<le> (254 :: coord)
   \<and> (\<exists>b p'. drawVLine (blank_panel 4 5 False) 19 17 0 True = Some (b, p')
        \<and> length (writes_since (blank_panel 4 5 False) p') = 18)"
proof -
  have h: "panel_ok (blank_panel 4 5 False)" "max 17 0 \<le> (254 :: coord)"
    by (simp_all add: panel_ok_def blank_panel_def)
  from drawVLine_terminates [OF h, of 19 True] h show ?thesis by simp
qed

text \<open>
  Claim C8 fails on the code. On the unrotated 4x5 panel (\<open>getYMax = 39\<close>),
  \<open>drawVLine(0, 256, 10)\<close> returns true and leaves the panel as it was, without one call
  of \<open>setPoint\<close>: the 8-bit swap temporary turns 256 into 0, so the loop runs from 10 up
  to 0. The claim asks for the points (0,10) to (0,39) to be set and for false, 256 being
  out of range. On an unrotated 1x32 panel, where all of (0,0) to (0,255) are in range,
  \<open>drawVLine(0, 0, 255)\<close> never returns: the 8-bit counter cannot exceed 255.
\<close>
theorem drawVLine_not_mirror:
  "drawVLine (blank_panel 4 5 False) 0 256 10 True = Some (True, blank_panel 4 5 False)
   \<and> getYMax (blank_panel 4 5 False) = 39
   \<and> drawVLine (blank_panel 1 32 False) 0 0 255 True = None
   \<and> getYMax (blank_panel 1 32 False) = 255"
proof -
  have a: "drawVLine (blank_panel 4 5 False) 0 256 10 True = Some (True, blank_panel 4 5 False)"
    apply (simp add: drawVLine_def Let_def)
    apply (subst drawVLine_loop.simps)
    apply (simp add: update_def blank_panel_def D_control_UPDATE_def)
    done
  have "drawVLine_loop 0 255 0 True True p = None" for p
  proof (cases "drawVLine_loop 0 255 0 True True p")
    case (Some r)
    then have "(255 :: coord) < 255" by (rule drawVLine_loop_never)
    then show ?thesis by simp
  qed
  then have b: "drawVLine (blank_panel 1 32 False) 0 0 255 True = None"
    by (simp add: drawVLine_def)
  show ?thesis using a b
    by (simp add: getYMax_def blank_panel_def ROW_SIZE_def)
qed


section \<open>Circles\<close>

lemma drawCirclePoints_run:
  "drawCirclePoints p xc yc x y state =
     (list_all (in_range p) (circle_points8 xc yc x y), plotted p (circle_points8 xc yc x y) state)"
  by (simp add: drawCirclePoints_def setPoint_plotted plotted_plotted circle_points8_def)

lemma spec_steps_Cons: "spec_midpoint_steps x y pk = (x, y) # tl (spec_midpoint_steps x y pk)"
proof -
  have "\<exists>r. spec_midpoint_steps x y pk = (x, y) # r"
    by (subst spec_midpoint_steps.simps) simp
  then show ?thesis by auto
qed

lemma spec_steps_tl:
  "tl (spec_midpoint_steps x y pk) =
     (if x < y then
        (if pk \<le> 0 then spec_midpoint_steps (x + 1) y (pk + 4 * x + 6)
         else spec_midpoint_steps (x + 1) (y - 1) (pk + 4 * (x - y) + 10))
      else [])"
  by (subst spec_midpoint_steps.simps) simp

text \<open>A value within the range of a \<open>w\<close>-bit \<^verbatim>\<open>int\<close> is kept.\<close>

lemma to_int_id:
  assumes "M = 2 ^ (w - 1)" and "- M \<le> k" and "k < M"
  shows "to_int w k = k"
  unfolding to_int_def using assms(2,3) unfolding assms(1) by (rule signed_take_bit_int_eq_self)

text \<open>
  The writes of the steps that follow the state \<open>(x, y, pk)\<close>. While the loop runs,
  \<open>0 \<le> x < y \<le> R\<close> and \<open>- 4 R \<le> pk \<le> 4 x + 6\<close>, so that no value computed leaves the
  range of \<^verbatim>\<open>int\<close> when \<open>4 R + 16\<close> is in it.
\<close>

lemma drawCircle_loop_run:
  assumes M: "M = 2 ^ (w - 1)" and R: "4 * R + 16 < M"
  shows "(x < y \<Longrightarrow> 0 \<le> x \<and> y \<le> R \<and> - (4 * R) \<le> pk \<and> pk \<le> 4 * x + 6) \<Longrightarrow>
     drawCircle_loop w xc yc state x y pk b p =
     Some (let pts = concat (map (\<lambda>s. circle_points8 xc yc (word_of_int (fst s)) (word_of_int (snd s)))
                       (tl (spec_midpoint_steps x y pk)))
           in (b \<and> list_all (in_range p) pts, plotted p pts state))"
proof (induction x y pk arbitrary: b p rule: spec_midpoint_steps.induct)
  case (1 x y pk)
  show ?case
  proof (cases "x < y")
    case False
    then show ?thesis
      by (subst drawCircle_loop.simps) (simp add: spec_steps_tl)
  next
    case True
    with 1(3) have inv: "0 \<le> x" "y \<le> R" "- (4 * R) \<le> pk" "pk \<le> 4 * x + 6"
      by simp_all
    have tx: "to_int w (x + 1) = x + 1"
      using True inv R by (intro to_int_id [OF M]) (simp_all add: algebra_simps)
    show ?thesis
    proof (cases "pk \<le> 0")
      case le: True
      have t1: "to_int w (4 * x) = 4 * x"
        using True inv R by (intro to_int_id [OF M]) (simp_all add: algebra_simps)
      have t2: "to_int w (pk + 4 * x) = pk + 4 * x"
        using True inv le R by (intro to_int_id [OF M]) (simp_all add: algebra_simps)
      have t3: "to_int w (pk + 4 * x + 6) = pk + 4 * x + 6"
        using True inv le R by (intro to_int_id [OF M]) (simp_all add: algebra_simps)
      have nxt: "0 \<le> x + 1 \<and> y \<le> R \<and> - (4 * R) \<le> pk + 4 * x + 6
          \<and> pk + 4 * x + 6 \<le> 4 * (x + 1) + 6"
        using inv le by simp
      have step: "tl (spec_midpoint_steps x y pk) = spec_midpoint_steps (x + 1) y (pk + 4 * x + 6)"
        using True le by (simp add: spec_steps_tl)
      have hd: "spec_midpoint_steps (x + 1) y (pk + 4 * x + 6)
          = (x + 1, y) # tl (spec_midpoint_steps (x + 1) y (pk + 4 * x + 6))"
        by (rule spec_steps_Cons)
      show ?thesis
        apply (subst drawCircle_loop.simps)
        apply (simp only: step)
        apply (subst hd)
        apply (simp only: Let_def t1 t2 t3 tx)
        using True le 1(1) [OF True le nxt]
        apply (simp add: Let_def drawCirclePoints_run plotted_plotted conj_ac)
        done
    next
      case gt: False
      have t1: "to_int w (x - y) = x - y"
        using True inv R by (intro to_int_id [OF M]) (simp_all add: algebra_simps)
      have t2: "to_int w (4 * (x - y)) = 4 * (x - y)"
        using True inv R by (intro to_int_id [OF M]) (simp_all add: algebra_simps)
      have t3: "to_int w (pk + 4 * (x - y)) = pk + 4 * (x - y)"
        using True inv gt R by (intro to_int_id [OF M]) (simp_all add: algebra_simps)
      have t4: "to_int w (pk + 4 * (x - y) + 10) = pk + 4 * (x - y) + 10"
        using True inv gt R by (intro to_int_id [OF M]) (simp_all add: algebra_simps)
      have ty: "to_int w (y - 1) = y - 1"
        using True inv R by (intro to_int_id [OF M]) (simp_all add: algebra_simps)
      have nxt: "0 \<le> x + 1 \<and> y - 1 \<le> R \<and> - (4 * R) \<le> pk + 4 * (x - y) + 10
          \<and> pk + 4 * (x - y) + 10 \<le> 4 * (x + 1) + 6" if "x + 1 < y - 1"
        using inv gt that by simp
      have step: "tl (spec_midpoint_steps x y pk)
          = spec_midpoint_steps (x + 1) (y - 1) (pk + 4 * (x - y) + 10)"
        using True gt by (simp add: spec_steps_tl)
      have hd: "spec_midpoint_steps (x + 1) (y - 1) (pk + 4 * (x - y) + 10)
          = (x + 1, y - 1) # tl (spec_midpoint_steps (x + 1) (y - 1) (pk + 4 * (x - y) + 10))"
        by (rule spec_steps_Cons)
      show ?thesis
        apply (subst drawCircle_loop.simps)
        apply (simp only: step)
        apply (subst hd)
        apply (simp only: Let_def t1 t2 t3 t4 tx ty)
        using True gt 1(2) [OF True gt nxt]
        apply (simp add: Let_def drawCirclePoints_run plotted_plotted conj_ac)
        done
    qed
  qed
qed

lemma drawCircle_run:
  assumes r: "4 * uint r + 16 < 2 ^ (w - 1)"
  shows "drawCircle w p xc yc r state =
     Some (False,
      update (plotted (p\<lparr>D := D_control_UPDATE (D p) False\<rparr>)
                (concat (map (\<lambda>s. circle_points8 xc yc (word_of_int (fst s)) (word_of_int (snd s)))
                   (spec_midpoint_steps 0 (uint r) (3 - 2 * uint r)))) state)
        (updateEnabled p))"
proof -
  have r0: "0 \<le> uint r" by simp
  have "- (2 ^ (w - 1)) \<le> uint r" and "uint r < 2 ^ (w - 1)"
    using r r0 by linarith+
  then have ty: "to_int w (uint r) = uint r"
    by (rule to_int_id [OF refl])
  have "- (2 ^ (w - 1)) \<le> 3 - 2 * uint r" and "3 - 2 * uint r < 2 ^ (w - 1)"
    using r r0 by linarith+
  then have tp: "to_int w (3 - 2 * uint r) = 3 - 2 * uint r"
    by (rule to_int_id [OF refl])
  have inv: "0 \<le> (0 :: int) \<and> uint r \<le> uint r \<and> - (4 * uint r) \<le> 3 - 2 * uint r
      \<and> 3 - 2 * uint r \<le> 4 * 0 + 6"
    using r0 by (intro conjI) linarith+
  have "concat (map (\<lambda>s. circle_points8 xc yc (word_of_int (fst s)) (word_of_int (snd s)))
          (spec_midpoint_steps 0 (uint r) (3 - 2 * uint r)))
      = circle_points8 xc yc 0 r @
        concat (map (\<lambda>s. circle_points8 xc yc (word_of_int (fst s)) (word_of_int (snd s)))
          (tl (spec_midpoint_steps 0 (uint r) (3 - 2 * uint r))))"
    by (subst spec_steps_Cons) simp
  then show ?thesis
    by (simp add: drawCircle_def ty tp drawCirclePoints_run drawCircle_loop_run [OF refl r inv]
        Let_def plotted_plotted)
qed

text \<open>Where \<^verbatim>\<open>int\<close> has 32 bits, every radius that \<^verbatim>\<open>uint16_t\<close> holds is within the bound.\<close>

lemma radius_fits_int32: "4 * uint (r :: coord) + 16 < 2 ^ (32 - 1)"
  using uint_lt2p [of r] by simp

text \<open>
  \<^verbatim>\<open>b\<close> starts from \<^verbatim>\<open>false\<close> and is only combined with \<^verbatim>\<open>&=\<close>: whatever the width of
  \<^verbatim>\<open>int\<close> and the radius, a call that returns returns false.
\<close>

lemma drawCircle_loop_keeps_false:
  assumes "drawCircle_loop w xc yc state x y pk b p = Some res"
  shows "\<not> b \<longrightarrow> \<not> fst res"
proof -
  note R = drawCircle_loop.raw_induct
     [where P = "\<lambda>w xc yc state x y pk b p res. \<not> b \<longrightarrow> \<not> fst res"
        and xa = "((((((((w, xc), yc), state), x), y), pk), b), p)" and ya = res]
  show ?thesis
  proof (rule R [simplified prod.case])
    show "drawCircle_loop w xc yc state x y pk b p = Some res" by (rule assms)
  next
    fix loop :: "nat \<Rightarrow> coord \<Rightarrow> coord \<Rightarrow> bool \<Rightarrow> int \<Rightarrow> int \<Rightarrow> int \<Rightarrow> bool \<Rightarrow> panel
       \<Rightarrow> (bool \<times> panel) option"
    fix w :: nat and xc yc :: coord and state b :: bool and x y pk :: int and p :: panel
      and res :: "bool \<times> panel"
    assume IH: "\<And>w xc yc state x y pk b p res.
      loop w xc yc state x y pk b p = Some res \<Longrightarrow> \<not> b \<longrightarrow> \<not> fst res"
    assume body: "(if x < y
      then if pk \<le> 0
           then let pk = to_int w (to_int w (pk + to_int w (4 * x)) + 6);
                    x = to_int w (x + 1)
                in case drawCirclePoints p xc yc (word_of_int x) (word_of_int y) state of
                   (r, p') \<Rightarrow> loop w xc yc state x y pk (b \<and> r) p'
           else let pk = to_int w (to_int w (pk + to_int w (4 * to_int w (x - y))) + 10);
                    x = to_int w (x + 1); y = to_int w (y - 1)
                in case drawCirclePoints p xc yc (word_of_int x) (word_of_int y) state of
                   (r, p') \<Rightarrow> loop w xc yc state x y pk (b \<and> r) p'
      else Some (b, p)) = Some res"
    show "\<not> b \<longrightarrow> \<not> fst res"
      using body IH
      by (auto simp add: Let_def split: if_splits prod.splits)
  qed
qed

lemma drawCircle_never_true:
  assumes "drawCircle w p xc yc r state = Some (b, p')"
  shows "\<not> b"
  using assms drawCircle_loop_keeps_false
  by (fastforce simp add: drawCircle_def Let_def split: option.splits prod.splits)

lemma set_circle_points8:
  "set (circle_points8 xc yc (word_of_int x) (word_of_int y))
     = narrow ` spec_symmetric8 (uint xc) (uint yc) (x, y)"
  by (simp add: circle_points8_def spec_symmetric8_def narrow_def wi_hom_syms)

lemma set_circle_writes:
  "set (concat (map (\<lambda>s. circle_points8 xc yc (word_of_int (fst s)) (word_of_int (snd s))) steps))
     = narrow ` \<Union> (spec_symmetric8 (uint xc) (uint yc) ` set steps)"
proof -
  have "set (circle_points8 xc yc (word_of_int (fst s)) (word_of_int (snd s)))
      = narrow ` spec_symmetric8 (uint xc) (uint yc) s" for s
    using set_circle_points8 [of xc yc "fst s" "snd s"] by simp
  then show ?thesis by (simp add: image_UN)
qed

text \<open>
  Claim C1 fails on the code. \<open>drawCircle\<close> starts from \<^verbatim>\<open>bool b = false\<close> and only ever
  combines with \<^verbatim>\<open>b &= ...\<close>, so it returns false whatever the pixel writes return. On
  the unrotated 4x4 panel, \<open>drawCircle(16, 16, 5)\<close> issues 40 pixel writes, every one of
  them in range, and returns false, with a 16-bit \<^verbatim>\<open>int\<close> and with a 32-bit \<^verbatim>\<open>int\<close> alike;
  the claim asks for true.
\<close>
theorem drawCircle_returns_false:
  "drawCircle 16 (blank_panel 4 4 False) 16 16 5 True \<noteq> None
   \<and> fst (the (drawCircle 16 (blank_panel 4 4 False) 16 16 5 True)) = False
   \<and> list_all (in_range (blank_panel 4 4 False))
        (writes_since (blank_panel 4 4 False)
           (snd (the (drawCircle 16 (blank_panel 4 4 False) 16 16 5 True))))
   \<and> length (writes_since (blank_panel 4 4 False)
        (snd (the (drawCircle 16 (blank_panel 4 4 False) 16 16 5 True)))) = 40
   \<and> drawCircle 32 (blank_panel 4 4 False) 16 16 5 True
       = drawCircle 16 (blank_panel 4 4 False) 16 16 5 True"
proof -
  have steps: "spec_midpoint_steps 0 5 (- 7) = [(0, 5), (1, 5), (2, 5), (3, 4), (4, 3)]"
    by (simp add: spec_midpoint_steps.simps)
  have m: "getXMax (blank_panel 4 4 False) = 31" "getYMax (blank_panel 4 4 False) = 31"
    by (simp_all add: blank_panel_def getXMax_def getYMax_def ROW_SIZE_def COL_SIZE_def)
  have r16: "4 * uint (5 :: coord) + 16 < 2 ^ (16 - 1)"
    and r32: "4 * uint (5 :: coord) + 16 < 2 ^ (32 - 1)" by simp_all
  show ?thesis
    by (simp add: drawCircle_run [OF r16] drawCircle_run [OF r32]
        writes_since_update_plotted steps circle_points8_def in_range_def m)
qed


section \<open>The translation is one-to-one\<close>

lemma col_exact:
  fixes a W m :: coord
  assumes "uint m < uint W" and "uint a < N" and "N * uint W \<le> 65536"
  shows "uint (a * W + W - 1 - m) = uint a * uint W + uint W - 1 - uint m"
proof -
  define K where "K = uint a * uint W + uint W - 1 - uint m"
  have e: "a * W + W - 1 - m = word_of_int K"
    by (simp add: K_def wi_hom_syms)
  have "0 \<le> uint a * uint W" by simp
  with assms(1) have k0: "0 \<le> K" unfolding K_def by linarith
  have "uint a * uint W \<le> (N - 1) * uint W"
    using assms(2) by (intro mult_right_mono) simp_all
  moreover have "(N - 1) * uint W = N * uint W - uint W" by (simp add: algebra_simps)
  moreover have "0 \<le> uint m" by simp
  ultimately have k1: "K < 65536"
    using assms(3) unfolding K_def by linarith
  have "uint (word_of_int K :: coord) = K"
    using k0 k1 by (simp add: uint_word_of_int)
  with e show ?thesis by (simp add: K_def)
qed

lemma folded_bounds:
  assumes "panel_ok p" and "in_range p pt"
  shows "0 \<le> fst (folded p pt)" and "fst (folded p pt) < 8 * uint (yDevices p)"
    and "0 \<le> snd (folded p pt)" and "snd (folded p pt) < 8 * uint (xDevices p)"
proof -
  have xm: "uint (fst pt) \<le> uint (getXMax p)" and ym: "uint (snd pt) \<le> uint (getYMax p)"
    using assms(2) by (simp_all add: in_range_def word_le_def)
  have g: "0 \<le> uint (fst pt)" "0 \<le> uint (snd pt)" by simp_all
  note m = uint_getMax [OF assms(1)]
  show "0 \<le> fst (folded p pt)" using xm g by (simp add: folded_def)
  show "0 \<le> snd (folded p pt)" using g by (simp add: folded_def)
  show "fst (folded p pt) < 8 * uint (yDevices p)"
  proof (cases "rotatedDisplay p")
    case True
    then have "fst (folded p pt) = uint (getXMax p) - uint (fst pt)" by (simp add: folded_def)
    moreover have "uint (getXMax p) = uint (yDevices p) * 8 - 1" using m(1) True by simp
    ultimately show ?thesis using g(1) by linarith
  next
    case False
    then have "fst (folded p pt) = uint (snd pt)" by (simp add: folded_def)
    moreover have "uint (getYMax p) = uint (yDevices p) * 8 - 1" using m(2) False by simp
    ultimately show ?thesis using ym by linarith
  qed
  show "snd (folded p pt) < 8 * uint (xDevices p)"
  proof (cases "rotatedDisplay p")
    case True
    then have "snd (folded p pt) = uint (snd pt)" by (simp add: folded_def)
    moreover have "uint (getYMax p) = uint (xDevices p) * 8 - 1" using m(2) True by simp
    ultimately show ?thesis using ym by linarith
  next
    case False
    then have "snd (folded p pt) = uint (fst pt)" by (simp add: folded_def)
    moreover have "uint (getXMax p) = uint (xDevices p) * 8 - 1" using m(1) False by simp
    ultimately show ?thesis using xm by linarith
  qed
qed

lemma folded_inj:
  assumes "folded p a = folded p b"
  shows "a = b"
proof -
  have "uint (fst a) = uint (fst b) \<and> uint (snd a) = uint (snd b)"
    using assms by (simp add: folded_def split: if_splits)
  then have "fst a = fst b \<and> snd a = snd b" by (simp only: word_uint_eq_iff)
  then show ?thesis by (simp add: prod_eq_iff)
qed

lemma addr_folded:
  assumes "panel_ok p" and "no_wrap p" and "in_range p pt"
  shows "uint (fst (addr p pt)) = 7 - fst (folded p pt) mod 8"
    and "uint (snd (addr p pt)) =
      (fst (folded p pt) div 8) * (8 * uint (xDevices p)) + 8 * uint (xDevices p) - 1 - snd (folded p pt)"
proof -
  let ?W = "(ucast (xDevices p) :: coord) * 8"
  have W: "uint ?W = 8 * uint (xDevices p)" by (simp add: uint_devs8)
  have Wpos: "0 < uint ?W" by (rule W_pos [OF assms(1)])
  have nw: "uint (yDevices p) * uint ?W \<le> 65536"
    using assms(2) by (simp add: W no_wrap_def)
  have xm: "uint (fst pt) \<le> uint (getXMax p)" and ym: "uint (snd pt) \<le> uint (getYMax p)"
    using assms(3) by (simp_all add: in_range_def word_le_def)
  note m = uint_getMax [OF assms(1)]
  note fb = folded_bounds [OF assms(1,3)]
  show "uint (fst (addr p pt)) = 7 - fst (folded p pt) mod 8"
  proof (cases "rotatedDisplay p")
    case False
    then show ?thesis by (simp add: addr_def Y2Row_def ROW_SIZE_def Y2Row_le7' folded_def)
  next
    case True
    have "uint (getXMax p - fst pt) = uint (getXMax p) - uint (fst pt)"
      using xm by (simp add: uint_sub_if')
    then show ?thesis
      using True by (simp add: addr_def Y2Row_def ROW_SIZE_def Y2Row_le7' folded_def Let_def)
  qed
  show "uint (snd (addr p pt)) =
      (fst (folded p pt) div 8) * (8 * uint (xDevices p)) + 8 * uint (xDevices p) - 1 - snd (folded p pt)"
  proof (cases "rotatedDisplay p")
    case False
    have f: "folded p pt = (uint (snd pt), uint (fst pt))" using False by (simp add: folded_def)
    have small: "uint (fst pt) < uint ?W" using fb(4) f W by simp
    then have md: "uint (fst pt mod ?W) = uint (fst pt)" by (simp add: uint_mod)
    have "uint (fst pt mod ?W) < uint ?W" using small md by simp
    moreover have "uint (snd pt div 8) < uint (yDevices p)"
      using fb(2) f by (simp add: uint_div)
    ultimately have "uint (snd pt div 8 * ?W + ?W - 1 - fst pt mod ?W)
        = uint (snd pt div 8) * uint ?W + uint ?W - 1 - uint (fst pt mod ?W)"
      using nw by (rule col_exact)
    then show ?thesis
      using False by (simp add: addr_def X2Col_def ROW_SIZE_def COL_SIZE_def md f W uint_div)
  next
    case True
    have sub: "uint (getXMax p - fst pt) = uint (getXMax p) - uint (fst pt)"
      using xm by (simp add: uint_sub_if')
    have f: "folded p pt = (uint (getXMax p - fst pt), uint (snd pt))"
      using True sub by (simp add: folded_def)
    have small: "uint (snd pt) < uint ?W" using fb(4) f W by simp
    then have md: "uint (snd pt mod ?W) = uint (snd pt)" by (simp add: uint_mod)
    have "uint (snd pt mod ?W) < uint ?W" using small md by simp
    moreover have "uint ((getXMax p - fst pt) div 8) < uint (yDevices p)"
      using fb(2) f by (simp add: uint_div)
    ultimately have "uint ((getXMax p - fst pt) div 8 * ?W + ?W - 1 - snd pt mod ?W)
        = uint ((getXMax p - fst pt) div 8) * uint ?W + uint ?W - 1 - uint (snd pt mod ?W)"
      using nw by (rule col_exact)
    then show ?thesis
      using True by (simp add: addr_def X2Col_def ROW_SIZE_def COL_SIZE_def Let_def md f W uint_div)
  qed
qed

lemma decode_col:
  fixes a a' t t' W :: int
  assumes "0 \<le> t" "t < W" "0 \<le> t'" "t' < W"
    and "a * W + W - 1 - t = a' * W + W - 1 - t'"
  shows "a = a' \<and> t = t'"
proof -
  have "a = a'"
  proof (rule ccontr)
    assume "a \<noteq> a'"
    then consider "a + 1 \<le> a'" | "a' + 1 \<le> a" by linarith
    then show False
    proof cases
      case 1
      have "0 \<le> W" using assms(1,2) by linarith
      with 1 have "(a + 1) * W \<le> a' * W" by (rule mult_right_mono)
      then have "a * W + W \<le> a' * W" by (simp add: algebra_simps)
      with assms show False by linarith
    next
      case 2
      have "0 \<le> W" using assms(1,2) by linarith
      with 2 have "(a' + 1) * W \<le> a * W" by (rule mult_right_mono)
      then have "a' * W + W \<le> a * W" by (simp add: algebra_simps)
      with assms show False by linarith
    qed
  qed
  with assms(5) show ?thesis by simp
qed

lemma addr_inj:
  assumes "panel_ok p" and "no_wrap p" and "in_range p a" and "in_range p b"
    and "addr p a = addr p b"
  shows "a = b"
proof -
  note fa = folded_bounds [OF assms(1,3)] and fb = folded_bounds [OF assms(1,4)]
  note aa = addr_folded [OF assms(1,2,3)] and ab = addr_folded [OF assms(1,2,4)]
  from aa(1) ab(1) assms(5) have row: "fst (folded p a) mod 8 = fst (folded p b) mod 8"
    by simp
  from aa(2) ab(2) assms(5) have
    "(fst (folded p a) div 8) * (8 * uint (xDevices p)) + 8 * uint (xDevices p) - 1 - snd (folded p a)
     = (fst (folded p b) div 8) * (8 * uint (xDevices p)) + 8 * uint (xDevices p) - 1 - snd (folded p b)"
    by simp
  with fa(3,4) fb(3,4) have "fst (folded p a) div 8 = fst (folded p b) div 8 \<and> snd (folded p a) = snd (folded p b)"
    by (intro decode_col)
  moreover from this row have "fst (folded p a) = fst (folded p b)"
    by (metis mult_div_mod_eq)
  ultimately have "folded p a = folded p b" by (simp add: prod_eq_iff)
  then show ?thesis by (rule folded_inj)
qed

lemma getPoint_plotted:
  assumes "panel_ok p" and "no_wrap p"
  shows "getPoint (plotted p pts state) x y =
     (if (x, y) \<in> set pts \<and> in_range p (x, y) then state else getPoint p x y)"
proof (cases "in_range p (x, y)")
  case False
  then show ?thesis by (auto simp add: getPoint_def in_range_def)
next
  case True
  show ?thesis
  proof (cases "(x, y) \<in> set pts")
    case in_pts: True
    with True show ?thesis using getPoint_plotted_in [of "(x, y)" pts p state] by simp
  next
    case False
    have "addr p (x, y) \<notin> addr p ` set (filter (in_range p) pts)"
    proof
      assume "addr p (x, y) \<in> addr p ` set (filter (in_range p) pts)"
      then obtain q where q: "q \<in> set pts" "in_range p q" "addr p (x, y) = addr p q" by auto
      from assms True q(2,3) have "(x, y) = q" by (rule addr_inj)
      with q(1) False show False by simp
    qed
    then have "(addr p (x, y) \<in> pixels (D (plotted p pts state))) = (addr p (x, y) \<in> pixels (D p))"
      by (simp add: paint_def)
    then show ?thesis using True False
      by (simp add: getPoint_def in_range_def D_getPoint_def addr_def plotted_def)
  qed
qed

lemma getPoint_update_plotted:
  "getPoint (update (plotted (p\<lparr>D := D_control_UPDATE (D p) v\<rparr>) pts state) u) = getPoint (plotted p pts state)"
  by (simp add: getPoint_D_control)

lemma pixels_update_plotted:
  "pixels (D (update (plotted (p\<lparr>D := D_control_UPDATE (D p) v\<rparr>) pts state) u))
     = paint state (addr p ` set (filter (in_range p) pts)) (pixels (D p))"
  by (simp add: update_def D_control_UPDATE_def)

text \<open>
  Claim C6, for the radii \<open>r\<close> such that \<open>4 r + 16\<close> is a value of \<^verbatim>\<open>int\<close>: \<open>r \<le> 8187\<close> where
  \<^verbatim>\<open>int\<close> has 16 bits, every \<open>r\<close> where it has 32. Then no value of \<^verbatim>\<open>x\<close>, \<^verbatim>\<open>y\<close>, \<^verbatim>\<open>pk\<close> or
  of their updates overflows. \<open>drawCircle(xc, yc, r, state)\<close> returns, and its pixel writes
  are, step by step of the midpoint algorithm as the spec words it (start \<open>x = 0\<close>,
  \<open>y = r\<close>, \<open>pk = 3 - 2r\<close>), the eight symmetric points of the step; as a set they are the
  spec's point set \<open>spec_circle\<close> with each coordinate narrowed to 16 bits; the pixels of
  the in-range ones are painted with \<open>state\<close>; and on a panel whose column numbers fit 16
  bits a pixel reads back as \<open>state\<close> when it is an in-range point of that set and as
  before otherwise. The witness is the example of the claim: on a blank 4x4 panel,
  \<open>drawCircle(16, 16, 5)\<close> lights exactly the point set of the algorithm started with
  \<open>pk = -7\<close>.
\<close>
theorem drawCircle_midpoint:
  assumes "panel_ok p" and "4 * uint r + 16 < 2 ^ (w - 1)"
  shows "\<exists>b p'. drawCircle w p xc yc r state = Some (b, p')
       \<and> writes_since p p'
           = concat (map (\<lambda>s. circle_points8 xc yc (word_of_int (fst s)) (word_of_int (snd s)))
               (spec_midpoint_steps 0 (uint r) (3 - 2 * uint r)))
       \<and> set (writes_since p p') = narrow ` spec_circle (uint xc) (uint yc) (uint r)
       \<and> pixels (D p')
           = paint state (addr p ` {pt \<in> narrow ` spec_circle (uint xc) (uint yc) (uint r). in_range p pt})
               (pixels (D p))
       \<and> (no_wrap p \<longrightarrow>
            (\<forall>x y. getPoint p' x y
               = (if (x, y) \<in> narrow ` spec_circle (uint xc) (uint yc) (uint r) \<and> in_range p (x, y)
                  then state else getPoint p x y)))"
proof -
  let ?pts = "concat (map (\<lambda>s. circle_points8 xc yc (word_of_int (fst s)) (word_of_int (snd s)))
               (spec_midpoint_steps 0 (uint r) (3 - 2 * uint r)))"
  let ?p' = "update (plotted (p\<lparr>D := D_control_UPDATE (D p) False\<rparr>) ?pts state) (updateEnabled p)"
  have run: "drawCircle w p xc yc r state = Some (False, ?p')"
    using assms(2) by (rule drawCircle_run)
  have w: "writes_since p ?p' = ?pts"
    by (simp add: writes_since_update_plotted)
  have s: "set ?pts = narrow ` spec_circle (uint xc) (uint yc) (uint r)"
    by (simp only: set_circle_writes spec_circle_def spec_circle_from_def)
  have "set (filter (in_range p) ?pts) = {pt \<in> set ?pts. in_range p pt}" by simp
  then have px: "pixels (D ?p')
      = paint state (addr p ` {pt \<in> narrow ` spec_circle (uint xc) (uint yc) (uint r). in_range p pt})
          (pixels (D p))"
    by (simp only: pixels_update_plotted s)
  have g: "getPoint ?p' x y
      = (if (x, y) \<in> narrow ` spec_circle (uint xc) (uint yc) (uint r) \<and> in_range p (x, y)
         then state else getPoint p x y)" if "no_wrap p" for x y
    using getPoint_plotted [OF assms(1) that, of ?pts state x y]
    by (simp only: getPoint_update_plotted s)
  from w s have ws: "set (writes_since p ?p') = narrow ` spec_circle (uint xc) (uint yc) (uint r)"
    by simp
  from run w ws px g show ?thesis by blast
qed

text \<open>
  The claim as it is written, for every radius, fails where \<^verbatim>\<open>int\<close> has 16 bits. For
  \<open>r = 65535\<close>, \<^verbatim>\<open>int y = r\<close> is \<open>-1\<close>, the test \<^verbatim>\<open>x < y\<close> fails at once and only the eight
  points of the first step are written. The second step of the algorithm, \<open>(1, 65535)\<close>,
  has the point \<open>(xc + 1, yc + 65535)\<close>, which narrows to \<open>(17, 15)\<close> for the centre
  \<open>(16, 16)\<close>: a point of the 4x4 panel that the call leaves off.
\<close>
theorem drawCircle_midpoint_counterexample:
  "drawCircle 16 (blank_panel 4 4 False) 16 16 65535 True \<noteq> None
   \<and> length (writes_since (blank_panel 4 4 False)
        (snd (the (drawCircle 16 (blank_panel 4 4 False) 16 16 65535 True)))) = 8
   \<and> (17, 15) \<in> narrow ` spec_circle 16 16 65535
   \<and> in_range (blank_panel 4 4 False) (17, 15)
   \<and> \<not> getPoint (snd (the (drawCircle 16 (blank_panel 4 4 False) 16 16 65535 True))) 17 15"
proof -
  let ?P = "blank_panel 4 4 False"
  let ?pts = "circle_points8 16 16 0 (- 1 :: coord)"
  have ok: "panel_ok ?P" by (simp add: panel_ok_def blank_panel_def)
  have nw: "no_wrap ?P" by (simp add: no_wrap_def blank_panel_def)
  have m: "getXMax ?P = 31" "getYMax ?P = 31"
    by (simp_all add: blank_panel_def getXMax_def getYMax_def ROW_SIZE_def COL_SIZE_def)
  have off: "getPoint ?P x y = False" for x y
    by (simp add: getPoint_def D_getPoint_def blank_panel_def)
  have ty: "to_int 16 (uint (65535 :: coord)) = - 1"
    by (simp add: to_int_def signed_take_bit_eq_take_bit_minus take_bit_eq_mod bit_iff_odd)
  have run: "drawCircle 16 ?P 16 16 65535 True
      = Some (False, update (plotted (?P\<lparr>D := D_control_UPDATE (D ?P) False\<rparr>) ?pts True)
                (updateEnabled ?P))"
    apply (simp only: drawCircle_def Let_def ty)
    apply (subst drawCircle_loop.simps)
    apply (simp add: drawCirclePoints_run)
    done
  have mem: "(1, 65535) \<in> set (spec_midpoint_steps 0 65535 (3 - 2 * 65535))"
    apply (subst spec_steps_Cons)
    apply (simp add: spec_steps_tl)
    apply (subst spec_steps_Cons)
    apply simp
    done
  have "(17, 65551) \<in> spec_circle 16 16 65535"
    unfolding spec_circle_def spec_circle_from_def
    using mem by (auto simp add: spec_symmetric8_def intro!: bexI [of _ "(1, 65535)"])
  then have "narrow (17, 65551) \<in> narrow ` spec_circle 16 16 65535" by (rule imageI)
  moreover have "narrow (17, 65551) = (17, 15)"
    by (simp add: narrow_def)
  ultimately have sp: "(17, 15) \<in> narrow ` spec_circle 16 16 65535"
    by simp
  have ir: "in_range ?P (17, 15)" by (simp add: in_range_def m)
  have "getPoint (update (plotted (?P\<lparr>D := D_control_UPDATE (D ?P) False\<rparr>) ?pts True)
                (updateEnabled ?P)) 17 15
      = (if (17, 15) \<in> set ?pts \<and> in_range ?P (17, 15) then True else getPoint ?P 17 15)"
    using getPoint_plotted [OF ok nw, of ?pts True 17 15]
    by (simp only: getPoint_update_plotted)
  then have gp: "\<not> getPoint (update (plotted (?P\<lparr>D := D_control_UPDATE (D ?P) False\<rparr>) ?pts True)
                (updateEnabled ?P)) 17 15"
    by (simp add: off circle_points8_def)
  have len: "length (writes_since ?P (update (plotted (?P\<lparr>D := D_control_UPDATE (D ?P) False\<rparr>) ?pts True)
                (updateEnabled ?P))) = 8"
    by (simp add: writes_since_update_plotted circle_points8_def)
  from len sp ir gp show ?thesis by (simp only: run option.sel snd_conv option.distinct simp_thms)
qed

lemma narrow_mem_iff:
  assumes "\<And>a b. (a, b) \<in> S \<Longrightarrow> 0 \<le> a \<and> a \<le> uint (getXMax p) \<and> 0 \<le> b \<and> b \<le> uint (getYMax p)"
  shows "((x, y) \<in> narrow ` S \<and> in_range p (x, y)) = ((uint x, uint y) \<in> S)"
proof
  assume "(x, y) \<in> narrow ` S \<and> in_range p (x, y)"
  then obtain a b where ab: "(a, b) \<in> S" "x = word_of_int a" "y = word_of_int b"
    by (auto simp add: narrow_def)
  from assms [OF ab(1)] have "0 \<le> a" "a < 65536" "0 \<le> b" "b < 65536"
    using uint_lt2p [of "getXMax p"] uint_lt2p [of "getYMax p"] by simp_all
  then have "uint x = a" "uint y = b" using ab(2,3) by (simp_all add: uint_word_of_int)
  with ab(1) show "(uint x, uint y) \<in> S" by simp
next
  assume m: "(uint x, uint y) \<in> S"
  then have "narrow (uint x, uint y) \<in> narrow ` S" by (rule imageI)
  moreover have "in_range p (x, y)"
    using assms [OF m] by (simp add: in_range_def word_le_def)
  ultimately show "(x, y) \<in> narrow ` S \<and> in_range p (x, y)" by (simp add: narrow_def)
qed

theorem drawCircle_midpoint_witness:
  "panel_ok (blank_panel 4 4 False) \<and> 4 * uint (5 :: coord) + 16 < 2 ^ (16 - 1)
   \<and> (\<exists>b p'. drawCircle 16 (blank_panel 4 4 False) 16 16 5 True = Some (b, p')
         \<and> (\<forall>x y. getPoint p' x y = ((uint x, uint y) \<in> spec_circle_from 16 16 5 (- 7))))"
proof -
  let ?P = "blank_panel 4 4 False"
  have ok: "panel_ok ?P" by (simp add: panel_ok_def blank_panel_def)
  have nw: "no_wrap ?P" by (simp add: no_wrap_def blank_panel_def)
  have r: "4 * uint (5 :: coord) + 16 < 2 ^ (16 - 1)" by simp
  have m: "getXMax ?P = 31" "getYMax ?P = 31"
    by (simp_all add: blank_panel_def getXMax_def getYMax_def ROW_SIZE_def COL_SIZE_def)
  have off: "getPoint ?P x y = False" for x y
    by (simp add: getPoint_def D_getPoint_def blank_panel_def)
  have steps: "spec_midpoint_steps 0 5 (- 7) = [(0, 5), (1, 5), (2, 5), (3, 4), (4, 3)]"
    by (simp add: spec_midpoint_steps.simps)
  have c: "spec_circle (uint (16 :: coord)) (uint (16 :: coord)) (uint (5 :: coord)) = spec_circle_from 16 16 5 (- 7)"
    by (simp add: spec_circle_def)
  have bnd: "0 \<le> a \<and> a \<le> uint (getXMax ?P) \<and> 0 \<le> b \<and> b \<le> uint (getYMax ?P)"
    if "(a, b) \<in> spec_circle_from 16 16 5 (- 7)" for a b
    using that by (auto simp add: spec_circle_from_def steps spec_symmetric8_def m)
  have mem: "((x, y) \<in> narrow ` spec_circle_from 16 16 5 (- 7) \<and> in_range ?P (x, y))
      = ((uint x, uint y) \<in> spec_circle_from 16 16 5 (- 7))" for x y
    using bnd by (rule narrow_mem_iff)
  from drawCircle_midpoint [OF ok r, of 16 16 True] nw
  obtain b p' where run: "drawCircle 16 ?P 16 16 5 True = Some (b, p')"
    and g: "\<forall>x y. getPoint p' x y
      = (if (x, y) \<in> narrow ` spec_circle (uint (16 :: coord)) (uint (16 :: coord)) (uint (5 :: coord))
            \<and> in_range ?P (x, y)
         then True else getPoint ?P x y)"
    by blast
  from g have "\<forall>x y. getPoint p' x y = ((uint x, uint y) \<in> spec_circle_from 16 16 5 (- 7))"
    by (simp only: c mem off if_bool_eq_conj simp_thms)
  with run have "\<exists>b p'. drawCircle 16 ?P 16 16 5 True = Some (b, p')
         \<and> (\<forall>x y. getPoint p' x y = ((uint x, uint y) \<in> spec_circle_from 16 16 5 (- 7)))"
    by blast
  with ok r show ?thesis by blast
qed


section \<open>Arbitrary lines\<close>

lemma line_err0_window:
  assumes "0 \<le> DX" and "0 \<le> DY" and "0 < DX + DY"
  shows "if DY < DX then 0 \<le> line_err0 DX DY \<and> line_err0 DX DY < DX
         else - DY < line_err0 DX DY \<and> line_err0 DX DY \<le> 0"
proof (cases "DY < DX")
  case True
  then have "line_err0 DX DY = DX div 2"
    using assms by (simp add: line_err0_def signed_divide_int_def)
  then show ?thesis using True assms by simp
next
  case False
  then have "0 < DY" using assms by linarith
  then have "line_err0 DX DY = - (DY div 2)"
    using False by (simp add: line_err0_def signed_divide_int_def)
  then show ?thesis using False \<open>0 < DY\<close> by simp
qed

lemma line_inv_start:
  assumes "0 \<le> DX" and "0 \<le> DY" and "0 < DX + DY"
  shows "line_inv DX DY (nat DX) (nat DY) (line_err0 DX DY)"
  using assms line_err0_window [OF assms]
  by (simp add: line_inv_def mult.commute)

lemma line_step:
  assumes inv: "line_inv DX DY A B E" and pos: "0 < A + B"
    and d: "0 \<le> DX" "0 \<le> DY"
  shows "(- DX < E \<longrightarrow> 0 < A) \<and> (E < DY \<longrightarrow> 0 < B) \<and> (- DX < E \<or> E < DY)
       \<and> line_inv DX DY (A - (if - DX < E then 1 else 0)) (B - (if E < DY then 1 else 0))
            (E - (if - DX < E then DY else 0) + (if E < DY then DX else 0))"
proof -
  let ?E0 = "line_err0 DX DY"
  have ab: "int A \<le> DX" "int B \<le> DY" using inv unfolding line_inv_def by blast+
  have dd: "0 < DX + DY" using ab pos by linarith
  note w0 = line_err0_window [OF d dd]
  have eq: "E = ?E0 + int A * DY - int B * DX" using inv unfolding line_inv_def by blast
  have win: "if DY < DX then 0 \<le> E \<and> E < DX else - DY < E \<and> E \<le> 0"
    using inv unfolding line_inv_def by blast
  have Bpos: "DX \<le> int B * DX" if "0 < B"
    using mult_right_mono [of 1 "int B" DX] that d by simp
  have Apos: "DY \<le> int A * DY" if "0 < A"
    using mult_right_mono [of 1 "int A" DY] that d by simp
  have a: "- DX < E \<longrightarrow> 0 < A"
  proof (intro impI, rule ccontr)
    assume s: "- DX < E" and "\<not> 0 < A"
    then have A0: "A = 0" by simp
    then have B1: "0 < B" using pos by simp
    show False
    proof (cases "DY < DX")
      case True
      with w0 win eq A0 Bpos [OF B1] show False by simp
    next
      case False
      with w0 win eq A0 Bpos [OF B1] s show False by simp
    qed
  qed
  have b: "E < DY \<longrightarrow> 0 < B"
  proof (intro impI, rule ccontr)
    assume s: "E < DY" and "\<not> 0 < B"
    then have B0: "B = 0" by simp
    then have A1: "0 < A" using pos by simp
    show False
    proof (cases "DY < DX")
      case True
      with w0 win eq B0 Apos [OF A1] s show False by simp
    next
      case False
      with w0 win eq B0 Apos [OF A1] show False by simp
    qed
  qed
  have c: "- DX < E \<or> E < DY" using win dd d by (auto split: if_splits)
  have A': "int (A - (if - DX < E then 1 else 0)) = int A - (if - DX < E then 1 else 0)"
    using a by auto
  have B': "int (B - (if E < DY then 1 else 0)) = int B - (if E < DY then 1 else 0)"
    using b by auto
  have i: "line_inv DX DY (A - (if - DX < E then 1 else 0)) (B - (if E < DY then 1 else 0))
            (E - (if - DX < E then DY else 0) + (if E < DY then DX else 0))"
    unfolding line_inv_def A' B'
    using ab eq win d by (auto simp add: algebra_simps split: if_splits)
  from a b c i show ?thesis by blast
qed

lemma sint16:
  assumes "- 32768 \<le> E" and "E < 32768"
  shows "sint (word_of_int E :: 16 word) = E"
  using assms by (simp add: sint_sbintrunc' signed_take_bit_int_eq_self)

lemma w_step_x:
  assumes "0 < A"
  shows "(x2 - word_of_nat A) + 1 = x2 - (word_of_nat (A - 1) :: coord)"
proof -
  have "A = Suc (A - 1)" using assms by simp
  then have "(word_of_nat A :: coord) = word_of_nat (A - 1) + 1" by (metis of_nat_Suc add.commute)
  then show ?thesis by simp
qed

lemma w_step_y:
  assumes "0 < B"
  shows "(y2 - sy * word_of_nat B) + sy = y2 - sy * (word_of_nat (B - 1) :: coord)"
proof -
  have "B = Suc (B - 1)" using assms by simp
  then have "(word_of_nat B :: coord) = word_of_nat (B - 1) + 1" by (metis of_nat_Suc add.commute)
  then show ?thesis by (simp add: algebra_simps)
qed

lemma of_nat_eq_0_16:
  assumes "A < 65536"
  shows "((word_of_nat A :: coord) = 0) = (A = 0)"
proof (cases "A = 0")
  case True
  then show ?thesis by simp
next
  case False
  then have "(word_of_nat A :: coord) \<noteq> 0" using assms by (intro of_nat_neq_0) simp_all
  with False show ?thesis by simp
qed

lemma at_end_iff:
  assumes "A < 65536" and "B < 65536" and "sy = 1 \<or> sy = - 1"
  shows "((x2 :: coord) - word_of_nat A = x2 \<and> y2 - sy * word_of_nat B = (y2 :: coord)) = (A = 0 \<and> B = 0)"
proof -
  have "(x2 - word_of_nat A = x2) = ((word_of_nat A :: coord) = 0)" by auto
  moreover have "(y2 - sy * word_of_nat B = y2) = ((word_of_nat B :: coord) = 0)"
    using assms(3) by auto
  ultimately show ?thesis using assms(1,2) by (simp add: of_nat_eq_0_16)
qed

lemma drawLine_loop_step:
  "drawLine_loop x1 y1 x2 y2 dx dy sy err state b p =
     (if x1 = x2 \<and> y1 = y2 then Some (b \<and> in_range p (x1, y1), plotted p [(x1, y1)] state)
      else drawLine_loop (if - sint dx < sint err then x1 + 1 else x1)
             (if sint err < sint dy then y1 + sy else y1) x2 y2 dx dy sy
             ((if - sint dx < sint err then err - dy else err) + (if sint err < sint dy then dx else 0))
             state (b \<and> in_range p (x1, y1)) (plotted p [(x1, y1)] state))"
  apply (subst drawLine_loop.simps)
  apply (simp only: setPoint_plotted prod.case Let_def)
  apply (cases "- sint dx < sint err"; cases "sint err < sint dy")
     apply (simp_all only: if_True if_False prod.case add_0_right)
  done

lemma drawLine_loop_terminates:
  assumes d: "0 \<le> DX" "DX < 32768" "0 \<le> DY" "DY < 32768"
    and sy: "sy = 1 \<or> sy = - 1"
    and AB: "int A \<le> DX" "int B \<le> DY"
    and inv: "A + B = 0 \<or> line_inv DX DY A B E"
  shows "\<exists>pts. drawLine_loop (x2 - word_of_nat A) (y2 - sy * word_of_nat B) x2 y2
            (word_of_int DX) (word_of_int DY) sy (word_of_int E) state b p
          = Some (b \<and> list_all (in_range p) pts, plotted p pts state)"
  using AB inv
proof (induction "A + B" arbitrary: A B E b p rule: less_induct)
  case less
  let ?x1 = "x2 - word_of_nat A" and ?y1 = "y2 - sy * word_of_nat B"
  have small: "A < 65536" "B < 65536" using less.prems(1,2) d by linarith+
  note end_iff = at_end_iff [OF small sy, of x2 y2]
  show ?case
  proof (cases "A + B = 0")
    case True
    then have "?x1 = x2 \<and> ?y1 = y2" using end_iff by simp
    then have "drawLine_loop ?x1 ?y1 x2 y2 (word_of_int DX) (word_of_int DY) sy (word_of_int E) state b p
        = Some (b \<and> list_all (in_range p) [(?x1, ?y1)], plotted p [(?x1, ?y1)] state)"
      by (subst drawLine_loop_step) simp
    then show ?thesis by blast
  next
    case False
    then have pos: "0 < A + B" by simp
    with less.prems(3) have inv: "line_inv DX DY A B E" by auto
    have notend: "\<not> (?x1 = x2 \<and> ?y1 = y2)" using end_iff False by simp
    note st = line_step [OF inv pos d(1,3)]
    let ?A' = "A - (if - DX < E then 1 else 0)" and ?B' = "B - (if E < DY then 1 else 0)"
    let ?E' = "E - (if - DX < E then DY else 0) + (if E < DY then DX else 0)"
    have win: "if DY < DX then 0 \<le> E \<and> E < DX else - DY < E \<and> E \<le> 0"
      using inv unfolding line_inv_def by blast
    have E: "sint (word_of_int E :: 16 word) = E"
      using win d by (intro sint16) (auto split: if_splits)
    have DX: "sint (word_of_int DX :: 16 word) = DX" using d by (intro sint16) auto
    have DY: "sint (word_of_int DY :: 16 word) = DY" using d by (intro sint16) auto
    have x': "(if - DX < E then ?x1 + 1 else ?x1) = x2 - word_of_nat ?A'"
      using st by (auto simp add: w_step_x)
    have y': "(if E < DY then ?y1 + sy else ?y1) = y2 - sy * word_of_nat ?B'"
      using st by (auto simp add: w_step_y)
    have e': "(if - DX < E then word_of_int E - word_of_int DY else word_of_int E)
          + (if E < DY then word_of_int DX else 0) = (word_of_int ?E' :: 16 word)"
      by (simp add: wi_hom_syms)
    have dec: "?A' + ?B' < A + B" using st by auto
    have AB': "int ?A' \<le> DX" "int ?B' \<le> DY" using less.prems(1,2) by auto
    have inv': "?A' + ?B' = 0 \<or> line_inv DX DY ?A' ?B' ?E'" using st by blast
    from less.hyps [OF dec AB' inv', of "b \<and> in_range p (?x1, ?y1)" "plotted p [(?x1, ?y1)] state"]
    obtain pts where pts: "drawLine_loop (x2 - word_of_nat ?A') (y2 - sy * word_of_nat ?B') x2 y2
            (word_of_int DX) (word_of_int DY) sy (word_of_int ?E') state
            (b \<and> in_range p (?x1, ?y1)) (plotted p [(?x1, ?y1)] state)
          = Some ((b \<and> in_range p (?x1, ?y1)) \<and> list_all (in_range (plotted p [(?x1, ?y1)] state)) pts,
                  plotted (plotted p [(?x1, ?y1)] state) pts state)"
      by blast
    have "drawLine_loop ?x1 ?y1 x2 y2 (word_of_int DX) (word_of_int DY) sy (word_of_int E) state b p
        = Some (b \<and> list_all (in_range p) ((?x1, ?y1) # pts), plotted p ((?x1, ?y1) # pts) state)"
      apply (subst drawLine_loop_step)
      apply (simp only: notend if_False E DX DY x' y' e' pts)
      apply (simp add: plotted_plotted)
      done
    then show ?thesis by blast
  qed
qed

lemma vertical_not_at_end:
  assumes "sy = 1 \<or> sy = - 1" and "Suc n < 65536"
  shows "\<not> ((x :: coord) = x \<and> y2 - sy * word_of_nat (Suc n) = (y2 :: coord))"
  using at_end_iff [OF _ assms(2,1), of 0 x y2] by simp

lemma line_err0_vertical:
  assumes "0 < DY"
  shows "- DY < line_err0 0 DY \<and> line_err0 0 DY \<le> 0"
  using line_err0_window [of 0 DY] assms by simp

lemma sint_line_err0_vertical:
  assumes "- DY < line_err0 0 DY \<and> line_err0 0 DY \<le> 0" and "0 \<le> DY" and "DY < 32768"
  shows "sint (word_of_int (line_err0 0 DY) :: 16 word) = line_err0 0 DY"
  using assms by (intro sint16) auto

lemma vertical_no_x_step:
  assumes "- DY < line_err0 0 DY \<and> line_err0 0 DY \<le> 0"
    and E: "sint (word_of_int (line_err0 0 DY) :: 16 word) = line_err0 0 DY"
  shows "\<not> - sint (0 :: 16 word) < sint (word_of_int (line_err0 0 DY) :: 16 word)"
  using assms(1) by (simp add: E)

lemma vertical_y_step:
  "y2 - sy * word_of_nat (Suc n) + sy = y2 - sy * (word_of_nat n :: coord)"
  using w_step_y [of "Suc n" y2 sy] by simp

lemma vertical_run_Suc:
  "vertical_run x y2 sy (Suc n) = (x, y2 - sy * word_of_nat (Suc n)) # vertical_run x y2 sy n"
  by (simp add: vertical_run_def)

lemma drawLine_loop_vertical:
  assumes d: "0 \<le> DY" "DY < 32768" and sy: "sy = 1 \<or> sy = - 1" and B: "int B \<le> DY"
  shows "drawLine_loop x (y2 - sy * word_of_nat B) x y2 0 (word_of_int DY) sy
            (word_of_int (line_err0 0 DY)) state b p
          = Some (b \<and> list_all (in_range p) (vertical_run x y2 sy B),
                  plotted p (vertical_run x y2 sy B) state)"
  using B
proof (induction B arbitrary: b p)
  case 0
  show ?case by (subst drawLine_loop_step) (simp add: vertical_run_def)
next
  case (Suc n)
  have pos: "0 < DY" using Suc.prems by linarith
  have small: "Suc n < 65536" using Suc.prems d by linarith
  have notend: "\<not> (x = x \<and> y2 - sy * word_of_nat (Suc n) = y2)"
    using sy small by (rule vertical_not_at_end)
  have w: "- DY < line_err0 0 DY \<and> line_err0 0 DY \<le> 0"
    using pos by (rule line_err0_vertical)
  have E: "sint (word_of_int (line_err0 0 DY) :: 16 word) = line_err0 0 DY"
    using w d by (rule sint_line_err0_vertical)
  have DY: "sint (word_of_int DY :: 16 word) = DY" using d by (intro sint16) auto
  have c1: "\<not> - sint (0 :: 16 word) < sint (word_of_int (line_err0 0 DY) :: 16 word)"
    using w E by (rule vertical_no_x_step)
  have c2: "sint (word_of_int (line_err0 0 DY) :: 16 word) < sint (word_of_int DY :: 16 word)"
    using w pos by (simp add: E DY)
  have y': "y2 - sy * word_of_nat (Suc n) + sy = y2 - sy * word_of_nat n"
    by (rule vertical_y_step)
  have n: "int n \<le> DY" using Suc.prems by simp
  show ?case
    apply (subst drawLine_loop_step)
    apply (simp only: notend if_False c1 c2 if_True y' add_0_right Suc.IH [OF n] vertical_run_Suc)
    apply (simp add: plotted_plotted)
    done
qed

lemma set_vertical_run:
  "set (vertical_run x y2 sy B) = (\<lambda>k. (x, y2 - sy * word_of_nat k)) ` {0 .. B}"
  by (simp only: vertical_run_def set_map set_rev set_upt atLeastLessThanSuc_atLeastAtMost)

lemma set_vertical_run_rev:
  assumes "sy = 1 \<or> sy = - 1"
  shows "set (vertical_run x (y2 - sy * word_of_nat B) (- sy) B) = set (vertical_run x y2 sy B)"
proof -
  have "(x, y2 - sy * word_of_nat B - (- sy) * word_of_nat k) = (x, y2 - sy * word_of_nat (B - k))"
    if "k \<le> B" for k
  proof -
    have "(word_of_nat B :: coord) = word_of_nat (B - k) + word_of_nat k"
      using that by (simp flip: of_nat_add)
    then show ?thesis by (simp add: algebra_simps)
  qed
  then have "(\<lambda>k. (x, y2 - sy * word_of_nat B - (- sy) * word_of_nat k)) ` {0 .. B}
      = (\<lambda>k. (x, y2 - sy * word_of_nat (B - k))) ` {0 .. B}"
    by (intro image_cong) auto
  also have "\<dots> = (\<lambda>k. (x, y2 - sy * word_of_nat k)) ` ((\<lambda>k. B - k) ` {0 .. B})"
    by (simp add: image_image)
  also have "(\<lambda>k. B - k) ` {0 .. B} = {0 .. B}"
  proof (intro set_eqI iffI)
    fix j assume "j \<in> {0 .. B}"
    then have "j = B - (B - j)" "B - j \<in> {0 .. B}" by auto
    then show "j \<in> (\<lambda>k. B - k) ` {0 .. B}" by (rule image_eqI)
  qed auto
  finally show ?thesis by (simp only: set_vertical_run)
qed

lemma word_of_nat_nat:
  assumes "0 \<le> k"
  shows "(word_of_nat (nat k) :: coord) = word_of_int k"
  by (rule word_of_int_nat [OF assms, symmetric])

lemma sint_diff16:
  fixes y1 y2 :: coord
  assumes "\<bar>uint y2 - uint y1\<bar> < 32768"
  shows "sint (y2 - y1) = uint y2 - uint y1"
proof -
  have "sint (word_of_int (uint y2 - uint y1) :: coord) = uint y2 - uint y1"
    using assms by (intro sint16) linarith+
  then show ?thesis by (simp only: word_sub_wi [symmetric])
qed

lemma word_of_int_abs_neg:
  fixes y1 y2 :: coord
  assumes "uint y2 - uint y1 \<le> 0"
  shows "word_of_int \<bar>uint y2 - uint y1\<bar> = y1 - y2"
proof -
  have "\<bar>uint y2 - uint y1\<bar> = uint y1 - uint y2" using assms by linarith
  then show ?thesis by (simp only: word_sub_wi [symmetric])
qed

lemma word_of_int_abs_pos:
  fixes y1 y2 :: coord
  assumes "0 \<le> uint y2 - uint y1"
  shows "word_of_int \<bar>uint y2 - uint y1\<bar> = y2 - y1"
proof -
  have "\<bar>uint y2 - uint y1\<bar> = uint y2 - uint y1" using assms by linarith
  then show ?thesis by (simp only: word_sub_wi [symmetric])
qed

lemma y_diff:
  fixes y1 y2 :: coord
  assumes "\<bar>uint y2 - uint y1\<bar> < 32768"
  shows "(if sint (y2 - y1) < 0 then - (y2 - y1) else y2 - y1) = word_of_int \<bar>uint y2 - uint y1\<bar>"
    and "y2 - (if y1 < y2 then 1 else - 1) * word_of_nat (nat \<bar>uint y2 - uint y1\<bar>) = y1"
proof -
  let ?d = "uint y2 - uint y1"
  note s = sint_diff16 [OF assms]
  show "(if sint (y2 - y1) < 0 then - (y2 - y1) else y2 - y1) = word_of_int \<bar>?d\<bar>"
  proof (cases "?d < 0")
    case True
    then have "word_of_int \<bar>?d\<bar> = y1 - y2" by (intro word_of_int_abs_neg) simp
    with True show ?thesis by (simp only: s if_True) simp
  next
    case False
    then have "word_of_int \<bar>?d\<bar> = y2 - y1" by (intro word_of_int_abs_pos) simp
    with False show ?thesis by (simp only: s if_False)
  qed
  have n: "(word_of_nat (nat \<bar>?d\<bar>) :: coord) = word_of_int \<bar>?d\<bar>"
    by (rule word_of_nat_nat) simp
  show "y2 - (if y1 < y2 then 1 else - 1) * word_of_nat (nat \<bar>?d\<bar>) = y1"
  proof (cases "y1 < y2")
    case True
    then have "0 \<le> ?d" by (simp add: word_less_def)
    then have "word_of_int \<bar>?d\<bar> = y2 - y1" by (rule word_of_int_abs_pos)
    with True show ?thesis by (simp only: n if_True) simp
  next
    case False
    then have "?d \<le> 0" by (simp add: word_less_def)
    then have "word_of_int \<bar>?d\<bar> = y1 - y2" by (rule word_of_int_abs_neg)
    with False show ?thesis by (simp only: n if_False) simp
  qed
qed


lemma drawLine_normal:
  fixes x1 x2 y1 y2 :: coord
  assumes "x1 \<le> x2" and "uint x2 - uint x1 < 32768" and "\<bar>uint y2 - uint y1\<bar> < 32768"
  shows "drawLine p x1 y1 x2 y2 state =
    (case drawLine_loop (x2 - word_of_nat (nat (uint x2 - uint x1)))
            (y2 - (if y1 < y2 then 1 else - 1) * word_of_nat (nat \<bar>uint y2 - uint y1\<bar>)) x2 y2
            (word_of_int (uint x2 - uint x1)) (word_of_int \<bar>uint y2 - uint y1\<bar>)
            (if y1 < y2 then 1 else - 1)
            (word_of_int (line_err0 (uint x2 - uint x1) \<bar>uint y2 - uint y1\<bar>))
            state True (p\<lparr>D := D_control_UPDATE (D p) False\<rparr>) of
       None \<Rightarrow> None
     | Some (b, p1) \<Rightarrow> Some (b, update p1 (updateEnabled p1)))"
proof -
  let ?DX = "uint x2 - uint x1" and ?DY = "\<bar>uint y2 - uint y1\<bar>"
  have dx0: "0 \<le> ?DX" using assms(1) by (simp add: word_le_def)
  have dxw: "word_of_int ?DX = x2 - x1" by (simp only: word_sub_wi [symmetric])
  have "(word_of_nat (nat ?DX) :: coord) = word_of_int ?DX" using dx0 by (rule word_of_nat_nat)
  then have x1: "x2 - word_of_nat (nat ?DX) = x1" by (simp only: dxw) simp
  note yd = y_diff [OF assms(3)]
  have sdx: "sint (x2 - x1) = ?DX"
    using dx0 assms(2) by (intro sint_diff16) linarith
  have sdy: "sint (word_of_int ?DY :: 16 word) = ?DY" using assms(3) by (intro sint16) linarith+
  have nsw: "(x2 < x1) = False" using assms(1) by simp
  show ?thesis
    unfolding drawLine_def Let_def
    by (simp only: nsw if_False prod.case sdx sdy x1 yd dxw line_err0_def)
qed

lemma drawLine_swap:
  assumes "x1 \<noteq> x2"
  shows "drawLine p x1 y1 x2 y2 state = drawLine p x2 y2 x1 y1 state"
proof (cases "x1 < x2")
  case True
  then have "\<not> x2 < x1" by simp
  with True show ?thesis by (simp add: drawLine_def)
next
  case False
  with assms have "x2 < x1" by simp
  with False show ?thesis by (simp add: drawLine_def)
qed

lemma drawLine_returns:
  fixes x1 x2 y1 y2 :: coord
  assumes "x1 \<le> x2" and "uint x2 - uint x1 < 32768" and "\<bar>uint y2 - uint y1\<bar> < 32768"
  shows "\<exists>b p1. drawLine p x1 y1 x2 y2 state = Some (b, p1)"
proof -
  let ?DX = "uint x2 - uint x1" and ?DY = "\<bar>uint y2 - uint y1\<bar>"
  let ?sy = "if y1 < y2 then 1 else - 1 :: coord"
  have d: "0 \<le> ?DX" "?DX < 32768" "0 \<le> ?DY" "?DY < 32768"
    using assms by (simp_all add: word_le_def)
  have sy: "?sy = 1 \<or> ?sy = - 1" by simp
  have AB: "int (nat ?DX) \<le> ?DX" "int (nat ?DY) \<le> ?DY" using d by simp_all
  have inv: "nat ?DX + nat ?DY = 0 \<or> line_inv ?DX ?DY (nat ?DX) (nat ?DY) (line_err0 ?DX ?DY)"
  proof (cases "0 < ?DX + ?DY")
    case True
    with d(1,3) have "line_inv ?DX ?DY (nat ?DX) (nat ?DY) (line_err0 ?DX ?DY)"
      by (rule line_inv_start)
    then show ?thesis ..
  next
    case False
    with d(1,3) have "nat ?DX + nat ?DY = 0" by simp
    then show ?thesis ..
  qed
  from drawLine_loop_terminates [OF d sy AB inv]
  obtain pts where "drawLine_loop (x2 - word_of_nat (nat ?DX)) (y2 - ?sy * word_of_nat (nat ?DY)) x2 y2
      (word_of_int ?DX) (word_of_int ?DY) ?sy (word_of_int (line_err0 ?DX ?DY)) state True
      (p\<lparr>D := D_control_UPDATE (D p) False\<rparr>)
    = Some (True \<and> list_all (in_range (p\<lparr>D := D_control_UPDATE (D p) False\<rparr>)) pts,
            plotted (p\<lparr>D := D_control_UPDATE (D p) False\<rparr>) pts state)"
    by blast
  then show ?thesis
    by (simp only: drawLine_normal [OF assms] option.case prod.case) blast
qed

lemma drawLine_vertical:
  fixes x y1 y2 :: coord
  assumes "\<bar>uint y2 - uint y1\<bar> < 32768"
  shows "drawLine p x y1 x y2 state =
     Some (list_all (in_range p) (vertical_run x y2 (if y1 < y2 then 1 else - 1) (nat \<bar>uint y2 - uint y1\<bar>)),
           update (plotted (p\<lparr>D := D_control_UPDATE (D p) False\<rparr>)
                     (vertical_run x y2 (if y1 < y2 then 1 else - 1) (nat \<bar>uint y2 - uint y1\<bar>)) state)
             (updateEnabled p))"
proof -
  let ?DY = "\<bar>uint y2 - uint y1\<bar>"
  let ?sy = "if y1 < y2 then 1 else - 1 :: coord"
  have d: "0 \<le> ?DY" "?DY < 32768" using assms by simp_all
  have sy: "?sy = 1 \<or> ?sy = - 1" by simp
  have B: "int (nat ?DY) \<le> ?DY" by simp
  have n: "drawLine p x y1 x y2 state =
    (case drawLine_loop x (y2 - ?sy * word_of_nat (nat ?DY)) x y2 0 (word_of_int ?DY) ?sy
            (word_of_int (line_err0 0 ?DY)) state True (p\<lparr>D := D_control_UPDATE (D p) False\<rparr>) of
       None \<Rightarrow> None
     | Some (b, p1) \<Rightarrow> Some (b, update p1 (updateEnabled p1)))"
    using drawLine_normal [of x x y2 y1 p state] assms by simp
  show ?thesis
    by (simp only: n drawLine_loop_vertical [OF d sy B] option.case prod.case) simp
qed

lemma plotted_cong_set:
  assumes "set xs = set ys"
  shows "D (plotted p xs state) = D (plotted p ys state)"
    and "list_all (in_range p) xs = list_all (in_range p) ys"
  using assms by (simp_all add: plotted_def list_all_iff)

lemma drawLine_loop_stuck:
  assumes "drawLine_loop x1 y1 x2 y2 dx dy sy err state b p = Some r"
  shows "\<not> (x1 = 0 \<and> y1 = 0 \<and> x2 = 0 \<and> y2 = 32768 \<and> dx = 0 \<and> dy = 32768 \<and> err = 0)"
proof (rule drawLine_loop.raw_induct [where P = "\<lambda>x1 y1 x2 y2 dx dy sy err state b p r.
      \<not> (x1 = 0 \<and> y1 = 0 \<and> x2 = 0 \<and> y2 = 32768 \<and> dx = 0 \<and> dy = 32768 \<and> err = 0)", OF _ assms])
  fix loop :: "coord \<Rightarrow> coord \<Rightarrow> coord \<Rightarrow> coord \<Rightarrow> 16 word \<Rightarrow> 16 word \<Rightarrow> 16 word \<Rightarrow> 16 word
     \<Rightarrow> bool \<Rightarrow> bool \<Rightarrow> panel \<Rightarrow> (bool \<times> panel) option"
  fix x1 y1 x2 y2 :: coord and dx dy sy err :: "16 word" and state b :: bool and p :: panel
    and r :: "bool \<times> panel"
  assume IH: "\<And>x1 y1 x2 y2 dx dy sy err state b p r. loop x1 y1 x2 y2 dx dy sy err state b p = Some r \<Longrightarrow>
      \<not> (x1 = 0 \<and> y1 = 0 \<and> x2 = 0 \<and> y2 = 32768 \<and> dx = 0 \<and> dy = 32768 \<and> err = 0)"
  assume body: "(case setPoint p x1 y1 state of
        (r, p') \<Rightarrow>
          if x1 = x2 \<and> y1 = y2 then Some (b \<and> r, p')
          else
            (let e2 = err;
                 (err, x1) = (if sint e2 > - sint dx then (err - dy, x1 + 1) else (err, x1));
                 (err, y1) = (if sint e2 < sint dy then (err + dx, y1 + sy) else (err, y1))
             in loop x1 y1 x2 y2 dx dy sy err state (b \<and> r) p')) = Some r"
  show "\<not> (x1 = 0 \<and> y1 = 0 \<and> x2 = 0 \<and> y2 = 32768 \<and> dx = 0 \<and> dy = 32768 \<and> err = 0)"
  proof
    assume s: "x1 = 0 \<and> y1 = 0 \<and> x2 = 0 \<and> y2 = 32768 \<and> dx = 0 \<and> dy = 32768 \<and> err = 0"
    have "sint (32768 :: 16 word) = - 32768" by simp
    with body s obtain b' p' where "loop 0 0 0 32768 0 32768 sy 0 state b' p' = Some r"
      by (auto simp add: Let_def split: prod.splits)
    from IH [OF this] show False by simp
  qed
qed

text \<open>
  Claim C7, amended. On a panel with at least one device in each direction, for
  endpoints whose x coordinates differ by less than 32768 and whose y coordinates
  differ by less than 32768, \<open>drawLine(x1, y1, x2, y2, state)\<close> and
  \<open>drawLine(x2, y2, x1, y1, state)\<close> both return, with the same result, the same set of
  pixels written and the same display afterwards. For \<open>x1 \<noteq> x2\<close> the swap makes the two
  calls one computation; for \<open>x1 = x2\<close> the two calls walk the same column in opposite
  directions. A difference of 32768 does not fit \<^verbatim>\<open>int16_t\<close> (the counterexample below).
\<close>
theorem drawLine_symmetric:
  assumes "panel_ok p" and "\<bar>uint x2 - uint x1\<bar> < 32768" and "\<bar>uint y2 - uint y1\<bar> < 32768"
  shows "\<exists>b p1 p2. drawLine p x1 y1 x2 y2 state = Some (b, p1)
       \<and> drawLine p x2 y2 x1 y1 state = Some (b, p2)
       \<and> set (writes_since p p1) = set (writes_since p p2)
       \<and> D p1 = D p2"
proof (cases "x1 = x2")
  case False
  have "\<exists>b p1. drawLine p x1 y1 x2 y2 state = Some (b, p1)"
  proof (cases "x1 < x2")
    case True
    then have "x1 \<le> x2" by simp
    moreover from this have "uint x2 - uint x1 < 32768" using assms(2) by (simp add: word_le_def)
    ultimately show ?thesis using assms(3) by (rule drawLine_returns)
  next
    case ge: False
    then have le: "x2 \<le> x1" by simp
    moreover from this have "uint x1 - uint x2 < 32768" using assms(2) by (simp add: word_le_def)
    moreover have "\<bar>uint y1 - uint y2\<bar> < 32768" using assms(3) by simp
    ultimately have "\<exists>b p1. drawLine p x2 y2 x1 y1 state = Some (b, p1)" by (rule drawLine_returns)
    then show ?thesis by (simp only: drawLine_swap [OF False])
  qed
  then obtain b p1 where "drawLine p x1 y1 x2 y2 state = Some (b, p1)" by blast
  moreover from this have "drawLine p x2 y2 x1 y1 state = Some (b, p1)"
    by (simp only: drawLine_swap [OF False])
  ultimately show ?thesis by blast
next
  case True
  let ?B = "nat \<bar>uint y2 - uint y1\<bar>"
  let ?sy = "if y1 < y2 then 1 else - 1 :: coord"
  let ?sy' = "if y2 < y1 then 1 else - 1 :: coord"
  let ?L = "vertical_run x2 y2 ?sy ?B" and ?L' = "vertical_run x2 y1 ?sy' ?B"
  let ?p0 = "p\<lparr>D := D_control_UPDATE (D p) False\<rparr>"
  have B': "nat \<bar>uint y1 - uint y2\<bar> = ?B" by simp
  have f: "drawLine p x1 y1 x2 y2 state
      = Some (list_all (in_range p) ?L, update (plotted ?p0 ?L state) (updateEnabled p))"
    unfolding True by (rule drawLine_vertical [OF assms(3)])
  have "\<bar>uint y1 - uint y2\<bar> < 32768" using assms(3) by simp
  then have g: "drawLine p x2 y2 x1 y1 state
      = Some (list_all (in_range p) ?L', update (plotted ?p0 ?L' state) (updateEnabled p))"
    unfolding True by (simp only: drawLine_vertical B')
  have s: "set ?L' = set ?L"
  proof (cases "y1 = y2")
    case True
    then show ?thesis by simp
  next
    case False
    have sy: "?sy = 1 \<or> ?sy = - 1" by simp
    have "?sy' = - ?sy" using False by auto
    moreover have "y1 = y2 - ?sy * word_of_nat ?B" using y_diff(2) [OF assms(3)] by simp
    ultimately have "?L' = vertical_run x2 (y2 - ?sy * word_of_nat ?B) (- ?sy) ?B" by simp
    then show ?thesis by (simp only: set_vertical_run_rev [OF sy])
  qed
  have "list_all (in_range p) ?L' = list_all (in_range p) ?L"
    using s by (simp add: list_all_iff)
  moreover have "set (writes_since p (update (plotted ?p0 ?L state) (updateEnabled p)))
      = set (writes_since p (update (plotted ?p0 ?L' state) (updateEnabled p)))"
    using s by (simp only: writes_since_update_plotted)
  moreover have "D (update (plotted ?p0 ?L state) (updateEnabled p))
      = D (update (plotted ?p0 ?L' state) (updateEnabled p))"
    using plotted_cong_set(1) [OF s, of ?p0 state] by (simp add: update_def)
  ultimately show ?thesis using f g by simp
qed

text \<open>
  From (0,0) to (0,32768): \<^verbatim>\<open>dy\<close> is \<open>-32768\<close> and stays so under \<^verbatim>\<open>dy = -dy\<close>, \<^verbatim>\<open>err\<close>
  is 0, neither \<^verbatim>\<open>e2 > -dx\<close> nor \<^verbatim>\<open>e2 < dy\<close> holds, and the loop writes (0,0) for ever.
\<close>

theorem drawLine_symmetric_counterexample:
  "drawLine (blank_panel 4 5 False) 0 0 0 32768 True = None"
proof -
  have "drawLine_loop 0 0 0 32768 0 (- 32768) 1 0 True True p = None" for p
  proof (cases "drawLine_loop 0 0 0 32768 0 (- 32768) 1 0 True True p")
    case (Some r)
    from drawLine_loop_stuck [OF this] show ?thesis by simp
  qed
  then show ?thesis by (simp add: drawLine_def)
qed

theorem drawLine_symmetric_witness:
  "panel_ok (blank_panel 4 5 False)
   \<and> \<bar>uint (9 :: coord) - uint (3 :: coord)\<bar> < 32768 \<and> \<bar>uint (2 :: coord) - uint (10 :: coord)\<bar> < 32768
   \<and> (\<exists>b p1 p2. drawLine (blank_panel 4 5 False) 3 10 9 2 True = Some (b, p1)
         \<and> drawLine (blank_panel 4 5 False) 9 2 3 10 True = Some (b, p2)
         \<and> set (writes_since (blank_panel 4 5 False) p1) = set (writes_since (blank_panel 4 5 False) p2)
         \<and> D p1 = D p2)"
proof -
  have h: "panel_ok (blank_panel 4 5 False)"
    "\<bar>uint (9 :: coord) - uint (3 :: coord)\<bar> < 32768" "\<bar>uint (2 :: coord) - uint (10 :: coord)\<bar> < 32768"
    by (simp_all add: panel_ok_def blank_panel_def)
  from drawLine_symmetric [OF h, of True] h show ?thesis by blast
qed

end
